theory Spec2Isabelle
  imports Main
begin

section \<open>The external-script load-once cache of \<^verbatim>\<open>src/adloader.js\<close>\<close>

text \<open>
  The module keeps a private \<^verbatim>\<open>WeakMap\<close> from documents to plain objects that map a url to
  a cache object \<^verbatim>\<open>{loaded, tag, callbacks}\<close>. The embedding threads one explicit state
  (\<open>world\<close>) through every function: the cache, a heap of script elements (a handle is an
  index into it, so "the same element" is "the same index"), and a log of every call the
  module makes to a collaborator or to a caller's callback, in program order.

  Scope of the embedding.
  \<^item> A per-document cache object is a plain JavaScript object. The state keeps the cache
    objects that were assigned to it, a finite map from url to cache object; a property
    read of it also finds what the object inherits along its prototype chain
    (\<open>getCacheObject\<close>). A url is a string.
  \<^item> A callback is identified by a number and either returns or throws when invoked; it
    does not call back into the module.
  \<^item> The collaborators that live outside \<^verbatim>\<open>adloader.js\<close> (the activity rules, the logger,
    \<^verbatim>\<open>createElement\<close>, \<^verbatim>\<open>setScriptAttributes\<close>, \<^verbatim>\<open>insertElement\<close>) are
    parameters of a call, collected in the record \<open>env\<close>: what the rules answer, what
    \<^verbatim>\<open>readyState\<close> a new script element shows, and which of the three DOM steps throws.
\<close>

subsection \<open>Data\<close>

type_synonym doc = nat
type_synonym handle = nat
type_synonym attrs = "(string \<times> string) list"

text \<open>The closure passed to \<^verbatim>\<open>requestResource\<close> captures the cache object of one
  (document, url); it is represented by that key.\<close>
type_synonym closure = "doc \<times> string"

datatype callback_fn = Callback (cb_id: nat) (cb_throws: bool)

text \<open>The \<^verbatim>\<open>callback\<close> argument: absent, a value that is not a function, or a function.\<close>
datatype jsarg = Undefined | NotAFunction | Function callback_fn

datatype activity = LOAD_EXTERNAL_SCRIPT

datatype exn =
    CallbackThrew nat
  | CreateElementThrew
  | SetScriptAttributesThrew
  | InsertElementThrew
  | TypeError

datatype event =
    IsActivityAllowed activity "string \<times> string"
  | LogError "string list" "exn option"
  | LogWarn string
  | CreateElement doc
  | SetScriptAttributes handle attrs
  | InsertElement handle doc
  | Invoke doc string nat

text \<open>What \<^verbatim>\<open>loadExternalScript\<close> returns: \<^verbatim>\<open>undefined\<close> (a bare \<^verbatim>\<open>return\<close>),
  \<^verbatim>\<open>null\<close> (a tag that was never set) or a script element.\<close>
datatype jsret = RetUndefined | RetNull | RetElement handle

record cacheObject =
  loaded :: bool
  tag :: "handle option"
  callbacks :: "callback_fn list"

record script =
  ownerDocument :: doc
  script_type :: string
  async :: bool
  src :: string
  readyState :: string
  onreadystatechange :: "closure option"
  onload :: "closure option"
  attribs :: attrs
  inserted :: bool

record world =
  requestCache :: "doc \<rightharpoonup> (string \<rightharpoonup> cacheObject)"
  scripts :: "script list"
  trace :: "event list"

record env =
  isActivityAllowed :: "activity \<Rightarrow> string \<times> string \<Rightarrow> bool"
  newReadyState :: string
  createElement_throws :: bool
  setScriptAttributes_throws :: bool
  insertElement_throws :: bool

record request =
  url :: string
  moduleType :: string
  moduleCode :: string
  callback :: jsarg
  doc :: "doc option"
  attributes :: "attrs option"

subsection \<open>Constants and collaborators\<close>

definition approvedLoadExternalJSList :: "string list" where
  "approvedLoadExternalJSList =
    [''debugging'', ''outstream'',
     ''aaxBlockmeter'', ''adagio'', ''adloox'', ''arcspan'', ''airgrid'', ''browsi'',
     ''brandmetrics'', ''clean.io'', ''humansecurityMalvDefense'', ''humansecurity'',
     ''confiant'', ''contxtful'', ''hadron'', ''mediafilter'', ''medianet'',
     ''azerionedge'', ''a1Media'', ''geoedge'', ''qortex'', ''dynamicAdBoost'',
     ''51Degrees'', ''symitridap'', ''wurfl'', ''nodalsAi'', ''anonymised'', ''optable'',
     ''justtag'', ''tncId'', ''ftrackId'', ''id5'']"

text \<open>The global \<^verbatim>\<open>document\<close>, the default context.\<close>
definition document :: doc where
  "document = 0"

text \<open>Modelled from the spec: \<^verbatim>\<open>activityParams\<close> of \<^verbatim>\<open>activities/activityParams.js\<close>
  is not part of the sources; the Policy Gate is given the caller identity
  \<^verbatim>\<open>{kind, id}\<close>, here the pair of module type and module code.\<close>
definition activityParams :: "string \<Rightarrow> string \<Rightarrow> string \<times> string" where
  "activityParams mt mc = (mt, mc)"

definition emit :: "event \<Rightarrow> world \<Rightarrow> world" where
  "emit e w = w\<lparr>trace := trace w @ [e]\<rparr>"

text \<open>Modelled from the spec: \<^verbatim>\<open>setScriptAttributes\<close> of \<^verbatim>\<open>utils.js\<close> is not part of the
  sources; the attributes are "added to the script with setAttribute by [key] and
  [value]", one pair after the other, a later value for a key replacing an earlier one.\<close>
fun setAttribute :: "string \<Rightarrow> string \<Rightarrow> attrs \<Rightarrow> attrs" where
  "setAttribute k v [] = [(k, v)]"
| "setAttribute k v ((k', v') # kvs) =
     (if k = k' then (k, v) # kvs else (k', v') # setAttribute k v kvs)"

fun setScriptAttributes :: "attrs \<Rightarrow> attrs \<Rightarrow> attrs" where
  "setScriptAttributes current [] = current"
| "setScriptAttributes current ((k, v) # kvs) = setScriptAttributes (setAttribute k v current) kvs"

subsection \<open>The cache\<close>

text \<open>The state keeps, for every document that has one, the table of the cache objects
  that were assigned to its plain object \<^verbatim>\<open>cachedDocObj\<close>. \<open>cacheObjectAt\<close> reads that table:
  it is the cache object that was created for (d, u), the object that the closures of lines
  101 and 120 captured, whatever a property read of \<^verbatim>\<open>cachedDocObj\<close> would find. An
  assignment \<^verbatim>\<open>cachedDocObj['__proto__'] = cacheObject\<close> creates no property: it makes the
  cache object the prototype of \<^verbatim>\<open>cachedDocObj\<close>; the table keeps it under that key.\<close>
definition cacheObjectAt :: "world \<Rightarrow> doc \<Rightarrow> string \<Rightarrow> cacheObject option" where
  "cacheObjectAt w d u =
     (case requestCache w d of
        None \<Rightarrow> None
      | Some cachedDocObj \<Rightarrow> cachedDocObj u)"

text \<open>The property names that every plain object inherits from \<^verbatim>\<open>Object.prototype\<close>
  (ECMAScript, with its Annex B). All of them are functions but \<^verbatim>\<open>__proto__\<close>, an accessor
  that yields the prototype: every one reads as a truthy value.\<close>
definition objectPrototypeMembers :: "string list" where
  "objectPrototypeMembers =
     [''constructor'', ''hasOwnProperty'', ''isPrototypeOf'', ''propertyIsEnumerable'',
      ''toLocaleString'', ''toString'', ''valueOf'', ''__proto__'',
      ''__defineGetter__'', ''__defineSetter__'', ''__lookupGetter__'', ''__lookupSetter__'']"

text \<open>A property read \<^verbatim>\<open>cachedDocObj[url]\<close> of a name that is not in the table goes up the
  prototype chain and finds a truthy value there: a member of \<^verbatim>\<open>Object.prototype\<close>, or,
  when a cache object was made the prototype, its \<^verbatim>\<open>callbacks\<close> array, its \<^verbatim>\<open>tag\<close>
  once that is a script element, its \<^verbatim>\<open>loaded\<close> once that is \<^verbatim>\<open>true\<close>.\<close>
definition inherited :: "(string \<rightharpoonup> cacheObject) \<Rightarrow> string \<Rightarrow> bool" where
  "inherited cachedDocObj u \<longleftrightarrow>
     u \<in> set objectPrototypeMembers
     \<or> (case cachedDocObj ''__proto__'' of
          None \<Rightarrow> False
        | Some prototype \<Rightarrow>
            u = ''callbacks'' \<or> (u = ''tag'' \<and> tag prototype \<noteq> None)
            \<or> (u = ''loaded'' \<and> loaded prototype))"

text \<open>What \<^verbatim>\<open>getCacheObject\<close> returns: \<^verbatim>\<open>null\<close>, a cache object, or a truthy value that is
  no cache object (a function, a prototype object, a script element, an array,
  \<^verbatim>\<open>true\<close>). Such a foreign value has no \<^verbatim>\<open>loaded\<close>, no \<^verbatim>\<open>callbacks\<close> and no
  \<^verbatim>\<open>tag\<close>: each of the three reads as \<^verbatim>\<open>undefined\<close>.\<close>
datatype lookup = Null | CacheObject cacheObject | Foreign

text \<open>Lines 149 to 155: \<^verbatim>\<open>cachedDocObj && cachedDocObj[url]\<close> tests the value of a property
  read for truthiness, so it is satisfied by an inherited property as well.\<close>
definition getCacheObject :: "world \<Rightarrow> doc \<Rightarrow> string \<Rightarrow> lookup" where
  "getCacheObject w d u =
     (case requestCache w d of
        None \<Rightarrow> Null
      | Some cachedDocObj \<Rightarrow>
          (case cachedDocObj u of
             Some cacheObject \<Rightarrow> CacheObject cacheObject
           | None \<Rightarrow> if inherited cachedDocObj u then Foreign else Null))"

text \<open>Lines 87, 93 and 94: \<^verbatim>\<open>cachedDocObj = _requestCache.get(doc) || {}\<close>,
  \<^verbatim>\<open>cachedDocObj[url] = cacheObject\<close>, \<^verbatim>\<open>_requestCache.set(doc, cachedDocObj)\<close>. The same
  function writes back a cache object after one of its fields was assigned, which in the
  source is a mutation of the object in place.\<close>
definition storeCacheObject :: "doc \<Rightarrow> string \<Rightarrow> cacheObject \<Rightarrow> world \<Rightarrow> world" where
  "storeCacheObject d u c w =
     w\<lparr>requestCache := (requestCache w)
          (d \<mapsto> (case requestCache w d of None \<Rightarrow> Map.empty | Some cachedDocObj \<Rightarrow> cachedDocObj)
                  (u \<mapsto> c))\<rparr>"

definition updateScript :: "handle \<Rightarrow> (script \<Rightarrow> script) \<Rightarrow> world \<Rightarrow> world" where
  "updateScript h f w = w\<lparr>scripts := (scripts w)[h := f (scripts w ! h)]\<rparr>"

subsection \<open>Callbacks and the completion closure\<close>

text \<open>One call \<^verbatim>\<open>callback()\<close>, made on behalf of the cache object of (d, u).\<close>
definition invoke :: "doc \<Rightarrow> string \<Rightarrow> callback_fn \<Rightarrow> world \<Rightarrow> (exn + unit) \<times> world" where
  "invoke d u cb w =
     (let w' = emit (Invoke d u (cb_id cb)) w
      in if cb_throws cb then (Inl (CallbackThrew (cb_id cb)), w') else (Inr (), w'))"

text \<open>The loop of lines 104 to 106. An exception leaves the loop at once: the
  \<^verbatim>\<open>try\<close> is around the loop, not inside it.\<close>
fun invokeCallbacks :: "doc \<Rightarrow> string \<Rightarrow> callback_fn list \<Rightarrow> world \<Rightarrow> (exn + unit) \<times> world" where
  "invokeCallbacks d u [] w = (Inr (), w)"
| "invokeCallbacks d u (cb # cbs) w =
     (case invoke d u cb w of
        (Inl e, w') \<Rightarrow> (Inl e, w')
      | (Inr _, w') \<Rightarrow> invokeCallbacks d u cbs w')"

text \<open>The anonymous function of lines 101 to 110, the completion handler of the cache
  object of (d, u): \<^verbatim>\<open>loaded = true\<close>, then the loop inside \<^verbatim>\<open>try\<close>, then the
  \<^verbatim>\<open>catch\<close> that logs. It never throws. The closure holds the cache object itself (the
  constant of line 88), so it reaches it without a property read.\<close>
definition scriptLoaded :: "closure \<Rightarrow> world \<Rightarrow> world" where
  "scriptLoaded cl w =
     (case cacheObjectAt w (fst cl) (snd cl) of
        None \<Rightarrow> w
      | Some cacheObject \<Rightarrow>
          (let w1 = storeCacheObject (fst cl) (snd cl) (cacheObject\<lparr>loaded := True\<rparr>) w
           in case invokeCallbacks (fst cl) (snd cl) (callbacks cacheObject) w1 of
                (Inr _, w2) \<Rightarrow> w2
              | (Inl e, w2) \<Rightarrow>
                  emit (LogError [''Error executing callback'', ''adloader.js:loadExternalScript'']
                          (Some e)) w2))"

text \<open>The handler of lines 126 to 131, installed on a script that shows a \<^verbatim>\<open>readyState\<close>.\<close>
definition onreadystatechange_handler :: "closure \<Rightarrow> handle \<Rightarrow> world \<Rightarrow> world" where
  "onreadystatechange_handler cl h w =
     (if readyState (scripts w ! h) = ''loaded'' \<or> readyState (scripts w ! h) = ''complete''
      then scriptLoaded cl (updateScript h (\<lambda>s. s\<lparr>onreadystatechange := None\<rparr>) w)
      else w)"

text \<open>The handler of lines 133 to 135.\<close>
definition onload_handler :: "closure \<Rightarrow> world \<Rightarrow> world" where
  "onload_handler cl w = scriptLoaded cl w"

subsection \<open>requestResource and loadExternalScript\<close>

definition newScript :: "env \<Rightarrow> doc \<Rightarrow> script" where
  "newScript en d =
     \<lparr>ownerDocument = d, script_type = [], async = False, src = [],
      readyState = newReadyState en, onreadystatechange = None, onload = None,
      attribs = [], inserted = False\<rparr>"

text \<open>\<^verbatim>\<open>requestResource(tagSrc, callback, doc, attributes)\<close>; \<open>u\<close> is the \<^verbatim>\<open>url\<close> of the
  enclosing call, which line 120 reads. Line 122 assigns \<^verbatim>\<open>tag\<close> to whatever truthy value
  that read finds. The function is local to \<^verbatim>\<open>loadExternalScript\<close> and is called on line
  101 only, where the read finds the cache object that lines 93 and 94 have just stored,
  for every url (lemma \<open>getCacheObject_store\<close>); line 122 is therefore never reached with
  a foreign value, and the last branch below is the \<^verbatim>\<open>null\<close> of line 154.\<close>
definition requestResource ::
  "env \<Rightarrow> string \<Rightarrow> string \<Rightarrow> closure \<Rightarrow> doc option \<Rightarrow> attrs option \<Rightarrow> world \<Rightarrow> (exn + handle) \<times> world"
where
  "requestResource en u tagSrc cb dopt attributes_arg w =
     (let d = (case dopt of None \<Rightarrow> document | Some d' \<Rightarrow> d');
          w1 = emit (CreateElement d) w
      in if createElement_throws en then (Inl CreateElementThrew, w1)
         else
           (let jptScript = length (scripts w1);
                w2 = w1\<lparr>scripts := scripts w1 @ [newScript en d]\<rparr>;
                w3 = updateScript jptScript (\<lambda>s. s\<lparr>script_type := ''text/javascript'', async := True\<rparr>) w2;
                w4 = (case getCacheObject w3 d u of
                        CacheObject cacheObject \<Rightarrow>
                          storeCacheObject d u (cacheObject\<lparr>tag := Some jptScript\<rparr>) w3
                      | _ \<Rightarrow> w3);
                w5 = (if readyState (scripts w4 ! jptScript) \<noteq> []
                      then updateScript jptScript (\<lambda>s. s\<lparr>onreadystatechange := Some cb\<rparr>) w4
                      else updateScript jptScript (\<lambda>s. s\<lparr>onload := Some cb\<rparr>) w4);
                w6 = updateScript jptScript (\<lambda>s. s\<lparr>src := tagSrc\<rparr>) w5
            in case attributes_arg of
                 Some a \<Rightarrow>
                   (let w7 = emit (SetScriptAttributes jptScript a) w6
                    in if setScriptAttributes_throws en then (Inl SetScriptAttributesThrew, w7)
                       else
                         (let w8 = updateScript jptScript
                                     (\<lambda>s. s\<lparr>attribs := setScriptAttributes (attribs s) a\<rparr>) w7;
                              w9 = emit (InsertElement jptScript d) w8
                          in if insertElement_throws en then (Inl InsertElementThrew, w9)
                             else (Inr jptScript, updateScript jptScript (\<lambda>s. s\<lparr>inserted := True\<rparr>) w9)))
               | None \<Rightarrow>
                   (let w9 = emit (InsertElement jptScript d) w6
                    in if insertElement_throws en then (Inl InsertElementThrew, w9)
                       else (Inr jptScript, updateScript jptScript (\<lambda>s. s\<lparr>inserted := True\<rparr>) w9))))"

definition ret_tag :: "handle option \<Rightarrow> jsret" where
  "ret_tag t = (case t of None \<Rightarrow> RetNull | Some h \<Rightarrow> RetElement h)"

definition target_doc :: "request \<Rightarrow> doc" where
  "target_doc r = (case doc r of None \<Rightarrow> document | Some d \<Rightarrow> d)"

text \<open>Lines 57 to 110. A truthy \<^verbatim>\<open>storedCachedObject\<close> is a cache object or a foreign
  value. On a foreign value \<^verbatim>\<open>storedCachedObject.loaded\<close> is \<^verbatim>\<open>undefined\<close>, so a function
  callback takes the branch of line 82, where \<^verbatim>\<open>storedCachedObject.callbacks\<close> is
  \<^verbatim>\<open>undefined\<close> and \<^verbatim>\<open>.push\<close> raises a TypeError; without a function callback line 85
  returns \<^verbatim>\<open>storedCachedObject.tag\<close>, which is \<^verbatim>\<open>undefined\<close>.\<close>
definition loadExternalScript :: "env \<Rightarrow> request \<Rightarrow> world \<Rightarrow> (exn + jsret) \<times> world" where
  "loadExternalScript en r w =
     (let w0 = emit (IsActivityAllowed LOAD_EXTERNAL_SCRIPT (activityParams (moduleType r) (moduleCode r))) w
      in if \<not> isActivityAllowed en LOAD_EXTERNAL_SCRIPT (activityParams (moduleType r) (moduleCode r))
         then (Inr RetUndefined, w0)
         else if moduleCode r = [] \<or> url r = []
         then (Inr RetUndefined,
               emit (LogError [''cannot load external script without url and moduleCode''] None) w0)
         else if moduleCode r \<notin> set approvedLoadExternalJSList
         then (Inr RetUndefined,
               emit (LogError [moduleCode r @ '' not whitelisted for loading external JavaScript''] None) w0)
         else
           (let d = target_doc r
            in case getCacheObject w0 d (url r) of
                 CacheObject storedCachedObject \<Rightarrow>
                   (case callback r of
                      Function cb \<Rightarrow>
                        if loaded storedCachedObject
                        then (case invoke d (url r) cb w0 of
                                (Inl e, w1) \<Rightarrow> (Inl e, w1)
                              | (Inr _, w1) \<Rightarrow> (Inr (ret_tag (tag storedCachedObject)), w1))
                        else (Inr (ret_tag (tag storedCachedObject)),
                              storeCacheObject d (url r)
                                (storedCachedObject\<lparr>callbacks := callbacks storedCachedObject @ [cb]\<rparr>) w0)
                    | _ \<Rightarrow> (Inr (ret_tag (tag storedCachedObject)), w0))
               | Foreign \<Rightarrow>
                   (case callback r of
                      Function cb \<Rightarrow> (Inl TypeError, w0)
                    | _ \<Rightarrow> (Inr RetUndefined, w0))
               | Null \<Rightarrow>
                   (let cacheObject = \<lparr>loaded = False, tag = None, callbacks = []\<rparr>;
                        w1 = storeCacheObject d (url r) cacheObject w0;
                        w2 = (case callback r of
                                Function cb \<Rightarrow>
                                  storeCacheObject d (url r)
                                    (cacheObject\<lparr>callbacks := callbacks cacheObject @ [cb]\<rparr>) w1
                              | _ \<Rightarrow> w1);
                        w3 = emit (LogWarn (''module '' @ moduleCode r @ '' is loading external JavaScript'')) w2
                    in case requestResource en (url r) (url r) (d, url r) (Some d) (attributes r) w3 of
                         (Inl e, w4) \<Rightarrow> (Inl e, w4)
                       | (Inr jptScript, w4) \<Rightarrow> (Inr (RetElement jptScript), w4))))"

subsection \<open>The environment: requests and completion signals, one after the other\<close>

text \<open>The environment delivers \<^verbatim>\<open>load\<close> and \<^verbatim>\<open>readystatechange\<close> only to a script element
  that was inserted into its document; a \<^verbatim>\<open>readystatechange\<close> comes with the new value
  of \<^verbatim>\<open>readyState\<close>.\<close>
definition deliverable :: "handle \<Rightarrow> world \<Rightarrow> bool" where
  "deliverable h w \<longleftrightarrow> h < length (scripts w) \<and> inserted (scripts w ! h)"

definition dispatchLoad :: "handle \<Rightarrow> world \<Rightarrow> world" where
  "dispatchLoad h w =
     (if deliverable h w
      then (case onload (scripts w ! h) of
              None \<Rightarrow> w
            | Some cl \<Rightarrow> onload_handler cl w)
      else w)"

definition dispatchReadyStateChange :: "handle \<Rightarrow> string \<Rightarrow> world \<Rightarrow> world" where
  "dispatchReadyStateChange h rs w =
     (if deliverable h w
      then (let w1 = updateScript h (\<lambda>s. s\<lparr>readyState := rs\<rparr>) w
            in case onreadystatechange (scripts w1 ! h) of
                 None \<Rightarrow> w1
               | Some cl \<Rightarrow> onreadystatechange_handler cl h w1)
      else w)"

datatype action =
    Request env request
  | LoadEvent handle
  | ReadyStateChangeEvent handle string

fun step :: "action \<Rightarrow> world \<Rightarrow> (exn + jsret) \<times> world" where
  "step (Request en r) w = loadExternalScript en r w"
| "step (LoadEvent h) w = (Inr RetUndefined, dispatchLoad h w)"
| "step (ReadyStateChangeEvent h rs) w = (Inr RetUndefined, dispatchReadyStateChange h rs w)"

fun exec :: "action list \<Rightarrow> world \<Rightarrow> (exn + jsret) list \<times> world" where
  "exec [] w = ([], w)"
| "exec (a # as) w =
     (case step a w of
        (out, w') \<Rightarrow> (case exec as w' of (outs, w'') \<Rightarrow> (out # outs, w'')))"

definition init :: world where
  "init = \<lparr>requestCache = Map.empty, scripts = [], trace = []\<rparr>"

text \<open>A call passes the three checks of lines 58 to 69.\<close>
definition accepted :: "env \<Rightarrow> request \<Rightarrow> bool" where
  "accepted en r \<longleftrightarrow>
     isActivityAllowed en LOAD_EXTERNAL_SCRIPT (activityParams (moduleType r) (moduleCode r))
     \<and> moduleCode r \<noteq> [] \<and> url r \<noteq> []
     \<and> moduleCode r \<in> set approvedLoadExternalJSList"

subsection \<open>Vocabulary of the statements\<close>

text \<open>The callbacks a \<^verbatim>\<open>callback\<close> argument contributes: itself when it is a function.\<close>
definition fn_callbacks :: "jsarg \<Rightarrow> callback_fn list" where
  "fn_callbacks a = (case a of Function cb \<Rightarrow> [cb] | _ \<Rightarrow> [])"

text \<open>The consultation of the activity rules that a request logs.\<close>
definition gate_event :: "request \<Rightarrow> event" where
  "gate_event r = IsActivityAllowed LOAD_EXTERNAL_SCRIPT (activityParams (moduleType r) (moduleCode r))"

text \<open>One of the DOM steps of \<^verbatim>\<open>requestResource\<close> throws.\<close>
definition creation_throws :: "env \<Rightarrow> attrs option \<Rightarrow> bool" where
  "creation_throws en a \<longleftrightarrow>
     createElement_throws en \<or> (a \<noteq> None \<and> setScriptAttributes_throws en) \<or> insertElement_throws en"

text \<open>The script element a run of \<^verbatim>\<open>requestResource\<close> leaves at the end of the heap.\<close>
definition created_script :: "env \<Rightarrow> doc \<Rightarrow> closure \<Rightarrow> string \<Rightarrow> attrs option \<Rightarrow> script" where
  "created_script en d cb tagSrc a =
     \<lparr>ownerDocument = d, script_type = ''text/javascript'', async = True, src = tagSrc,
      readyState = newReadyState en,
      onreadystatechange = (if newReadyState en \<noteq> [] then Some cb else None),
      onload = (if newReadyState en \<noteq> [] then None else Some cb),
      attribs = (case a of None \<Rightarrow> [] | Some kvs \<Rightarrow>
                   if setScriptAttributes_throws en then [] else setScriptAttributes [] kvs),
      inserted = (\<not> creation_throws en a)\<rparr>"

text \<open>The callbacks a drain of \<open>cbs\<close> reaches: all of them up to and including the first
  one that throws.\<close>
fun reached :: "callback_fn list \<Rightarrow> callback_fn list" where
  "reached [] = []"
| "reached (cb # cbs) = (if cb_throws cb then [cb] else cb # reached cbs)"

text \<open>The events of one run of the completion handler over the callbacks \<open>cbs\<close>.\<close>
definition drain_events :: "doc \<Rightarrow> string \<Rightarrow> callback_fn list \<Rightarrow> event list" where
  "drain_events d u cbs =
     map (\<lambda>cb. Invoke d u (cb_id cb)) (reached cbs) @
     (case filter cb_throws cbs of
        [] \<Rightarrow> []
      | cb # _ \<Rightarrow> [LogError [''Error executing callback'', ''adloader.js:loadExternalScript'']
                     (Some (CallbackThrew (cb_id cb)))])"

text \<open>The events of one call, read off the state before it.\<close>
definition call_events :: "env \<Rightarrow> request \<Rightarrow> world \<Rightarrow> event list" where
  "call_events en r w =
     gate_event r #
       (if \<not> isActivityAllowed en LOAD_EXTERNAL_SCRIPT (activityParams (moduleType r) (moduleCode r)) then []
        else if moduleCode r = [] \<or> url r = []
        then [LogError [''cannot load external script without url and moduleCode''] None]
        else if moduleCode r \<notin> set approvedLoadExternalJSList
        then [LogError [moduleCode r @ '' not whitelisted for loading external JavaScript''] None]
        else (case getCacheObject w (target_doc r) (url r) of
                CacheObject c \<Rightarrow>
                  (if loaded c
                   then map (\<lambda>cb. Invoke (target_doc r) (url r) (cb_id cb)) (fn_callbacks (callback r))
                   else [])
              | Foreign \<Rightarrow> []
              | Null \<Rightarrow>
                  [LogWarn (''module '' @ moduleCode r @ '' is loading external JavaScript''),
                   CreateElement (target_doc r)] @
                  (if createElement_throws en then []
                   else (case attributes r of
                           None \<Rightarrow> []
                         | Some kvs \<Rightarrow> [SetScriptAttributes (length (scripts w)) kvs]) @
                        (if attributes r \<noteq> None \<and> setScriptAttributes_throws en then []
                         else [InsertElement (length (scripts w)) (target_doc r)]))))"

text \<open>The closure that a \<^verbatim>\<open>readystatechange\<close> with value \<open>rs\<close> on script element \<open>h\<close> calls, if any.\<close>
definition rsc_fires :: "handle \<Rightarrow> string \<Rightarrow> world \<Rightarrow> closure option" where
  "rsc_fires h rs w =
     (if deliverable h w \<and> (rs = ''loaded'' \<or> rs = ''complete'')
      then onreadystatechange (scripts w ! h) else None)"

text \<open>The events one action appends to the log.\<close>
definition step_events :: "action \<Rightarrow> world \<Rightarrow> event list" where
  "step_events a w = drop (length (trace w)) (trace (snd (step a w)))"

text \<open>The script element an event of the log is about, and the script elements a log
  speaks of.\<close>
fun event_handle :: "event \<Rightarrow> handle option" where
  "event_handle (SetScriptAttributes h a) = Some h"
| "event_handle (InsertElement h d) = Some h"
| "event_handle _ = None"

fun handles_in :: "event list \<Rightarrow> handle list" where
  "handles_in [] = []"
| "handles_in (e # es) = (case event_handle e of None \<Rightarrow> handles_in es | Some h \<Rightarrow> h # handles_in es)"

text \<open>The events of a log in which \<^verbatim>\<open>setScriptAttributes\<close> is called on script element \<open>h\<close>.\<close>
fun sets_attributes_of :: "handle \<Rightarrow> event \<Rightarrow> bool" where
  "sets_attributes_of h (SetScriptAttributes k a) = (k = h)"
| "sets_attributes_of h _ = False"

text \<open>The events in which \<^verbatim>\<open>setScriptAttributes\<close> is called at all.\<close>
fun is_SetScriptAttributes :: "event \<Rightarrow> bool" where
  "is_SetScriptAttributes (SetScriptAttributes k a) = True"
| "is_SetScriptAttributes _ = False"

text \<open>The events of a log in which script element \<open>h\<close> is inserted.\<close>
fun inserts :: "handle \<Rightarrow> event \<Rightarrow> bool" where
  "inserts h (InsertElement k d) = (k = h)"
| "inserts h _ = False"

text \<open>The events of a log in which a callback is invoked on behalf of the cache object of
  (d, u).\<close>
fun invokes_for :: "doc \<Rightarrow> string \<Rightarrow> event \<Rightarrow> bool" where
  "invokes_for d u (Invoke d' u' i) = (d' = d \<and> u' = u)"
| "invokes_for d u _ = False"

text \<open>The script elements that were created in document \<open>d\<close> with source \<open>u\<close>.\<close>
definition scripts_of :: "doc \<Rightarrow> string \<Rightarrow> world \<Rightarrow> handle list" where
  "scripts_of d u w =
     filter (\<lambda>k. ownerDocument (scripts w ! k) = d \<and> src (scripts w ! k) = u) [0..<length (scripts w)]"

text \<open>An accepted request for the key (d, u).\<close>
fun targets :: "doc \<Rightarrow> string \<Rightarrow> action \<Rightarrow> bool" where
  "targets d u (Request en r) = (accepted en r \<and> target_doc r = d \<and> url r = u)"
| "targets d u _ = False"

text \<open>The call ended with the exception of its own callback.\<close>
fun own_callback_threw :: "action \<Rightarrow> exn + jsret \<Rightarrow> bool" where
  "own_callback_threw (Request en r) out =
     (case callback r of
        Function cb \<Rightarrow> cb_throws cb \<and> out = Inl (CallbackThrew (cb_id cb))
      | _ \<Rightarrow> False)"
| "own_callback_threw _ out = False"

text \<open>The callbacks that the accepted requests for the key (d, u) in a sequence of actions
  hand in, in the order of the requests.\<close>
fun registered :: "doc \<Rightarrow> string \<Rightarrow> action list \<Rightarrow> callback_fn list" where
  "registered d u [] = []"
| "registered d u (Request en r # as) =
     (if accepted en r \<and> target_doc r = d \<and> url r = u then fn_callbacks (callback r) else [])
     @ registered d u as"
| "registered d u (_ # as) = registered d u as"

text \<open>The action delivers the completion signal of the key (d, u) in state \<open>w\<close>.\<close>
fun fires :: "doc \<Rightarrow> string \<Rightarrow> action \<Rightarrow> world \<Rightarrow> bool" where
  "fires d u (Request en r) w = False"
| "fires d u (LoadEvent h) w = (deliverable h w \<and> onload (scripts w ! h) = Some (d, u))"
| "fires d u (ReadyStateChangeEvent h rs) w = (rsc_fires h rs w = Some (d, u))"

text \<open>No action of the sequence delivers the completion signal of (d, u).\<close>
fun quiet :: "doc \<Rightarrow> string \<Rightarrow> action list \<Rightarrow> world \<Rightarrow> bool" where
  "quiet d u [] w = True"
| "quiet d u (a # as) w = (\<not> fires d u a w \<and> quiet d u as (snd (step a w)))"

text \<open>The state \<open>w\<close> with the cache of document \<open>d\<close> replaced by \<open>t\<close> (no cache object at all
  when \<open>t\<close> is \<open>None\<close>).\<close>
definition with_context :: "doc \<Rightarrow> (string \<rightharpoonup> cacheObject) option \<Rightarrow> world \<Rightarrow> world" where
  "with_context d t w = w\<lparr>requestCache := (requestCache w)(d := t)\<rparr>"

subsection \<open>Invariants\<close>

text \<open>Every cache object has its tag.\<close>
definition tagged :: "world \<Rightarrow> bool" where
  "tagged w \<longleftrightarrow> (\<forall>d u c. cacheObjectAt w d u = Some c \<longrightarrow> tag c \<noteq> None)"

text \<open>The states the module can be in: the key of every script element has a cache object,
  the handlers of a script element are the closure of its own key, and the log speaks of
  existing script elements only.\<close>
definition wf :: "world \<Rightarrow> bool" where
  "wf w \<longleftrightarrow>
     (\<forall>s \<in> set (scripts w).
         cacheObjectAt w (ownerDocument s) (src s) \<noteq> None
         \<and> (\<forall>cl. onload s = Some cl \<or> onreadystatechange s = Some cl \<longrightarrow> cl = (ownerDocument s, src s)))
     \<and> (\<forall>h \<in> set (handles_in (trace w)). h < length (scripts w))"

text \<open>The state of a key whose script element \<open>n\<close> was created and inserted.\<close>
definition loading :: "doc \<Rightarrow> string \<Rightarrow> handle \<Rightarrow> world \<Rightarrow> bool" where
  "loading d u n w \<longleftrightarrow>
     (\<exists>c. cacheObjectAt w d u = Some c \<and> tag c = Some n)
     \<and> scripts_of d u w = [n]
     \<and> filter (inserts n) (trace w) = [InsertElement n d]"

text \<open>A cache object that can never complete: it is pending and no inserted script element
  carries its completion handler.\<close>
definition dead :: "doc \<Rightarrow> string \<Rightarrow> world \<Rightarrow> bool" where
  "dead d u w \<longleftrightarrow>
     (\<exists>c. cacheObjectAt w d u = Some c \<and> \<not> loaded c)
     \<and> (\<forall>k < length (scripts w). inserted (scripts w ! k) \<longrightarrow>
            onload (scripts w ! k) \<noteq> Some (d, u) \<and> onreadystatechange (scripts w ! k) \<noteq> Some (d, u))"

subsection \<open>Concrete inputs\<close>

text \<open>An environment in which the rules allow everything and no DOM step throws.\<close>
definition en_ok :: env where
  "en_ok = \<lparr>isActivityAllowed = (\<lambda>a p. True), newReadyState = [], createElement_throws = False,
            setScriptAttributes_throws = False, insertElement_throws = False\<rparr>"

text \<open>An environment in which the rules deny everything.\<close>
definition en_deny :: env where
  "en_deny = en_ok\<lparr>isActivityAllowed := (\<lambda>a p. False)\<rparr>"

text \<open>An environment in which \<^verbatim>\<open>setScriptAttributes\<close> throws.\<close>
definition en_attr_throws :: env where
  "en_attr_throws = en_ok\<lparr>setScriptAttributes_throws := True\<rparr>"



text \<open>A request without document and without attributes.\<close>
definition rq :: "string \<Rightarrow> string \<Rightarrow> jsarg \<Rightarrow> request" where
  "rq u mc cb = \<lparr>url = u, moduleType = ''rtd'', moduleCode = mc, callback = cb, doc = None, attributes = None\<rparr>"

text \<open>A request with attributes.\<close>
definition rq_attrs :: "string \<Rightarrow> string \<Rightarrow> jsarg \<Rightarrow> attrs \<Rightarrow> request" where
  "rq_attrs u mc cb a = (rq u mc cb)\<lparr>attributes := Some a\<rparr>"


text \<open>The state after one script was requested and has loaded.\<close>
definition w_loaded :: world where
  "w_loaded =
     snd (exec [Request en_ok (rq ''foo.js'' ''debugging'' (Function (Callback 1 False))), LoadEvent 0] init)"

text \<open>The state after one request with a callback, before its script has loaded.\<close>
definition w_pending :: world where
  "w_pending = snd (loadExternalScript en_ok (rq ''foo.js'' ''debugging'' (Function (Callback 1 False))) init)"


text \<open>The state after two requests for one url, the first with a callback that throws, the
  second with one that returns.\<close>
definition w_thrower_first :: world where
  "w_thrower_first =
     snd (exec [Request en_ok (rq ''foo.js'' ''debugging'' (Function (Callback 1 True))),
                Request en_ok (rq ''foo.js'' ''optable'' (Function (Callback 2 False)))] init)"

text \<open>The state after three requests for one url whose second callback throws.\<close>
definition w_thrower_second :: world where
  "w_thrower_second =
     snd (exec [Request en_ok (rq ''foo.js'' ''debugging'' (Function (Callback 1 False))),
                Request en_ok (rq ''foo.js'' ''optable'' (Function (Callback 2 True))),
                Request en_ok (rq ''foo.js'' ''id5'' (Function (Callback 3 False)))] init)"


section \<open>What each function does to the state\<close>

lemma emit_simps [simp]:
  "requestCache (emit e w) = requestCache w"
  "scripts (emit e w) = scripts w"
  "trace (emit e w) = trace w @ [e]"
  by (simp_all add: emit_def)

lemma cacheObjectAt_emit [simp]: "cacheObjectAt (emit e w) d u = cacheObjectAt w d u"
  by (simp add: cacheObjectAt_def)

lemma storeCacheObject_simps [simp]:
  "scripts (storeCacheObject d u c w) = scripts w"
  "trace (storeCacheObject d u c w) = trace w"
  by (simp_all add: storeCacheObject_def)

lemma cacheObjectAt_store [simp]:
  "cacheObjectAt (storeCacheObject d u c w) d' u' =
     (if d' = d \<and> u' = u then Some c else cacheObjectAt w d' u')"
  by (simp add: cacheObjectAt_def storeCacheObject_def split: option.splits)

lemma updateScript_simps [simp]:
  "requestCache (updateScript h f w) = requestCache w"
  "trace (updateScript h f w) = trace w"
  "length (scripts (updateScript h f w)) = length (scripts w)"
  by (simp_all add: updateScript_def)

lemma cacheObjectAt_updateScript [simp]:
  "cacheObjectAt (updateScript h f w) d u = cacheObjectAt w d u"
  by (simp add: cacheObjectAt_def)

lemma scripts_updateScript:
  "scripts (updateScript h f w) = (scripts w)[h := f (scripts w ! h)]"
  by (simp add: updateScript_def)

lemma cacheObjectAt_scripts_upd [simp]:
  "cacheObjectAt (w\<lparr>scripts := ss\<rparr>) d u = cacheObjectAt w d u"
  by (simp add: cacheObjectAt_def)

text \<open>A property read yields a cache object exactly when one was stored under the url;
  what it finds otherwise, nothing or an inherited value, is no stored cache object.\<close>
lemma getCacheObject_CacheObject:
  "getCacheObject w d u = CacheObject c \<longleftrightarrow> cacheObjectAt w d u = Some c"
  by (simp add: getCacheObject_def cacheObjectAt_def split: option.splits)

lemma getCacheObject_Null: "getCacheObject w d u = Null \<Longrightarrow> cacheObjectAt w d u = None"
  by (simp add: getCacheObject_def cacheObjectAt_def split: option.splits if_splits)

lemma getCacheObject_Foreign: "getCacheObject w d u = Foreign \<Longrightarrow> cacheObjectAt w d u = None"
  by (simp add: getCacheObject_def cacheObjectAt_def split: option.splits if_splits)

lemma lookup_case_stored:
  "(case getCacheObject w d u of Null \<Rightarrow> g | CacheObject c \<Rightarrow> f c | Foreign \<Rightarrow> g) =
     (case cacheObjectAt w d u of None \<Rightarrow> g | Some c \<Rightarrow> f c)"
  by (simp add: getCacheObject_def cacheObjectAt_def split: option.splits)

lemma getCacheObject_cong:
  "requestCache w = requestCache w' \<Longrightarrow> getCacheObject w d u = getCacheObject w' d u"
  by (simp add: getCacheObject_def)

lemma getCacheObject_emit [simp]: "getCacheObject (emit e w) d u = getCacheObject w d u"
  by (simp add: getCacheObject_def)

lemma getCacheObject_updateScript [simp]:
  "getCacheObject (updateScript h f w) d u = getCacheObject w d u"
  by (simp add: getCacheObject_def)

lemma getCacheObject_scripts_upd [simp]:
  "getCacheObject (w\<lparr>scripts := ss\<rparr>) d u = getCacheObject w d u"
  by (simp add: getCacheObject_def)

text \<open>Lines 93, 94 and 120: the read that follows the assignment finds the cache object
  that was assigned, for every url (for \<^verbatim>\<open>__proto__\<close> it is the new prototype).\<close>
lemma getCacheObject_store:
  "getCacheObject (storeCacheObject d u c w) d u = CacheObject c"
  by (simp add: getCacheObject_def storeCacheObject_def split: option.splits)

lemma getCacheObject_store_other:
  "d' \<noteq> d \<Longrightarrow> getCacheObject (storeCacheObject d u c w) d' u' = getCacheObject w d' u'"
  by (simp add: getCacheObject_def storeCacheObject_def split: option.splits)

lemma invoke_simps [simp]:
  "snd (invoke d u cb w) = emit (Invoke d u (cb_id cb)) w"
  "fst (invoke d u cb w) = (if cb_throws cb then Inl (CallbackThrew (cb_id cb)) else Inr ())"
  by (simp_all add: invoke_def Let_def)

lemma invokeCallbacks_frame [simp]:
  "requestCache (snd (invokeCallbacks d u cbs w)) = requestCache w"
  "scripts (snd (invokeCallbacks d u cbs w)) = scripts w"
  by (induction cbs arbitrary: w; simp add: invoke_def Let_def)+

lemma invokeCallbacks_trace:
  "trace (snd (invokeCallbacks d u cbs w)) = trace w @ map (\<lambda>cb. Invoke d u (cb_id cb)) (reached cbs)"
  by (induction cbs arbitrary: w) (simp_all add: invoke_def Let_def)

lemma invokeCallbacks_result:
  "fst (invokeCallbacks d u cbs w) =
     (case filter cb_throws cbs of [] \<Rightarrow> Inr () | cb # _ \<Rightarrow> Inl (CallbackThrew (cb_id cb)))"
  by (induction cbs arbitrary: w) (simp_all add: invoke_def Let_def)

lemma cacheObjectAt_invokeCallbacks [simp]:
  "cacheObjectAt (snd (invokeCallbacks d u cbs w)) d' u' = cacheObjectAt w d' u'"
  by (simp add: cacheObjectAt_def)

lemma getCacheObject_invokeCallbacks [simp]:
  "getCacheObject (snd (invokeCallbacks d u cbs w)) d' u' = getCacheObject w d' u'"
  by (simp add: getCacheObject_def)

lemma scriptLoaded_alt:
  "scriptLoaded (d, u) w =
     (case cacheObjectAt w d u of
        None \<Rightarrow> w
      | Some c \<Rightarrow>
          (case fst (invokeCallbacks d u (callbacks c) (storeCacheObject d u (c\<lparr>loaded := True\<rparr>) w)) of
             Inr _ \<Rightarrow> snd (invokeCallbacks d u (callbacks c) (storeCacheObject d u (c\<lparr>loaded := True\<rparr>) w))
           | Inl e \<Rightarrow> emit (LogError [''Error executing callback'', ''adloader.js:loadExternalScript''] (Some e))
                       (snd (invokeCallbacks d u (callbacks c) (storeCacheObject d u (c\<lparr>loaded := True\<rparr>) w)))))"
  by (simp add: scriptLoaded_def Let_def split: option.splits prod.splits sum.splits)

lemma scriptLoaded_scripts [simp]: "scripts (scriptLoaded cl w) = scripts w"
  by (cases cl) (simp add: scriptLoaded_alt split: option.splits sum.splits)

lemma cacheObjectAt_scriptLoaded:
  "cacheObjectAt (scriptLoaded (d, u) w) d' u' =
     (if d' = d \<and> u' = u then map_option (\<lambda>c. c\<lparr>loaded := True\<rparr>) (cacheObjectAt w d u)
      else cacheObjectAt w d' u')"
  by (simp add: scriptLoaded_alt split: option.splits sum.splits)

lemma getCacheObject_scriptLoaded:
  "getCacheObject w d u = CacheObject c \<Longrightarrow>
     getCacheObject (scriptLoaded (d, u) w) d u = CacheObject (c\<lparr>loaded := True\<rparr>)"
  "d' \<noteq> d \<Longrightarrow> getCacheObject (scriptLoaded (d, u) w) d' u' = getCacheObject w d' u'"
proof -
  show "getCacheObject w d u = CacheObject c \<Longrightarrow>
          getCacheObject (scriptLoaded (d, u) w) d u = CacheObject (c\<lparr>loaded := True\<rparr>)"
    by (simp add: getCacheObject_CacheObject cacheObjectAt_scriptLoaded)
  show "d' \<noteq> d \<Longrightarrow> getCacheObject (scriptLoaded (d, u) w) d' u' = getCacheObject w d' u'"
    by (simp add: scriptLoaded_alt getCacheObject_store_other split: option.splits sum.splits)
qed

lemma trace_scriptLoaded:
  "trace (scriptLoaded (d, u) w) =
     trace w @ (case cacheObjectAt w d u of None \<Rightarrow> [] | Some c \<Rightarrow> drain_events d u (callbacks c))"
  by (simp add: scriptLoaded_alt drain_events_def invokeCallbacks_trace invokeCallbacks_result
           split: option.splits sum.splits list.splits)

lemma requestResource_result:
  "fst (requestResource en u tagSrc cb (Some d) a w) =
     (if createElement_throws en then Inl CreateElementThrew
      else if a \<noteq> None \<and> setScriptAttributes_throws en then Inl SetScriptAttributesThrew
      else if insertElement_throws en then Inl InsertElementThrew
      else Inr (length (scripts w)))"
  by (simp add: requestResource_def Let_def lookup_case_stored split: option.splits)

lemma requestResource_scripts:
  "scripts (snd (requestResource en u tagSrc cb (Some d) a w)) =
     (if createElement_throws en then scripts w
      else scripts w @ [created_script en d cb tagSrc a])"
  by (simp add: requestResource_def Let_def lookup_case_stored scripts_updateScript created_script_def
        newScript_def creation_throws_def split: option.splits)

lemma requestResource_cache:
  "cacheObjectAt (snd (requestResource en u tagSrc cb (Some d) a w)) d' u' =
     (if \<not> createElement_throws en \<and> d' = d \<and> u' = u
      then map_option (\<lambda>c. c\<lparr>tag := Some (length (scripts w))\<rparr>) (cacheObjectAt w d u)
      else cacheObjectAt w d' u')"
  by (simp add: requestResource_def Let_def lookup_case_stored split: option.splits)

lemma requestResource_trace:
  "trace (snd (requestResource en u tagSrc cb (Some d) a w)) =
     trace w @ CreateElement d #
       (if createElement_throws en then []
        else (case a of None \<Rightarrow> [] | Some kvs \<Rightarrow> [SetScriptAttributes (length (scripts w)) kvs]) @
             (if a \<noteq> None \<and> setScriptAttributes_throws en then []
              else [InsertElement (length (scripts w)) d]))"
  by (simp add: requestResource_def Let_def lookup_case_stored split: option.splits)

lemma case_prod_sum:
  "(case p of (Inl e, w) \<Rightarrow> f e w | (Inr h, w) \<Rightarrow> g h w) =
     (case fst p of Inl e \<Rightarrow> f e (snd p) | Inr h \<Rightarrow> g h (snd p))"
  by (cases p) (simp split: sum.splits)

lemma loadExternalScript_rejected:
  assumes "\<not> accepted en r"
  shows "fst (loadExternalScript en r w) = Inr RetUndefined"
    and "requestCache (snd (loadExternalScript en r w)) = requestCache w"
    and "scripts (snd (loadExternalScript en r w)) = scripts w"
    and "trace (snd (loadExternalScript en r w)) =
           trace w @ gate_event r #
             (if \<not> isActivityAllowed en LOAD_EXTERNAL_SCRIPT (activityParams (moduleType r) (moduleCode r)) then []
              else if moduleCode r = [] \<or> url r = []
              then [LogError [''cannot load external script without url and moduleCode''] None]
              else [LogError [moduleCode r @ '' not whitelisted for loading external JavaScript''] None])"
  using assms by (auto simp: loadExternalScript_def accepted_def Let_def gate_event_def)

lemma loadExternalScript_hit:
  assumes "accepted en r" and "cacheObjectAt w (target_doc r) (url r) = Some c"
  shows "fst (loadExternalScript en r w) =
           (case callback r of
              Function cb \<Rightarrow> if loaded c \<and> cb_throws cb then Inl (CallbackThrew (cb_id cb))
                             else Inr (ret_tag (tag c))
            | _ \<Rightarrow> Inr (ret_tag (tag c)))"
    and "scripts (snd (loadExternalScript en r w)) = scripts w"
    and "cacheObjectAt (snd (loadExternalScript en r w)) d' u' =
           (if d' = target_doc r \<and> u' = url r \<and> \<not> loaded c
            then Some (c\<lparr>callbacks := callbacks c @ fn_callbacks (callback r)\<rparr>)
            else cacheObjectAt w d' u')"
    and "trace (snd (loadExternalScript en r w)) =
           trace w @ gate_event r #
             (if loaded c then map (\<lambda>cb. Invoke (target_doc r) (url r) (cb_id cb)) (fn_callbacks (callback r))
              else [])"
  using assms assms(2) [folded getCacheObject_CacheObject]
  by (auto simp: loadExternalScript_def accepted_def Let_def gate_event_def fn_callbacks_def invoke_def
           split: jsarg.splits)

text \<open>An accepted call whose property read finds an inherited value: nothing is created,
  nothing is stored, no callback is queued or invoked.\<close>
lemma loadExternalScript_foreign:
  assumes "accepted en r" and "getCacheObject w (target_doc r) (url r) = Foreign"
  shows "fst (loadExternalScript en r w) =
           (case callback r of Function cb \<Rightarrow> Inl TypeError | _ \<Rightarrow> Inr RetUndefined)"
    and "requestCache (snd (loadExternalScript en r w)) = requestCache w"
    and "scripts (snd (loadExternalScript en r w)) = scripts w"
    and "trace (snd (loadExternalScript en r w)) = trace w @ [gate_event r]"
  using assms
  by (auto simp: loadExternalScript_def accepted_def Let_def gate_event_def split: jsarg.splits)

lemma loadExternalScript_miss:
  assumes "accepted en r" and "getCacheObject w (target_doc r) (url r) = Null"
  shows "fst (loadExternalScript en r w) =
           (if createElement_throws en then Inl CreateElementThrew
            else if attributes r \<noteq> None \<and> setScriptAttributes_throws en then Inl SetScriptAttributesThrew
            else if insertElement_throws en then Inl InsertElementThrew
            else Inr (RetElement (length (scripts w))))"
    and "scripts (snd (loadExternalScript en r w)) =
           (if createElement_throws en then scripts w
            else scripts w @ [created_script en (target_doc r) (target_doc r, url r) (url r) (attributes r)])"
    and "cacheObjectAt (snd (loadExternalScript en r w)) d' u' =
           (if d' = target_doc r \<and> u' = url r
            then Some \<lparr>loaded = False,
                       tag = (if createElement_throws en then None else Some (length (scripts w))),
                       callbacks = fn_callbacks (callback r)\<rparr>
            else cacheObjectAt w d' u')"
    and "trace (snd (loadExternalScript en r w)) =
           trace w @ [gate_event r,
                      LogWarn (''module '' @ moduleCode r @ '' is loading external JavaScript''),
                      CreateElement (target_doc r)] @
             (if createElement_throws en then []
              else (case attributes r of None \<Rightarrow> [] | Some kvs \<Rightarrow> [SetScriptAttributes (length (scripts w)) kvs]) @
                   (if attributes r \<noteq> None \<and> setScriptAttributes_throws en then []
                    else [InsertElement (length (scripts w)) (target_doc r)]))"
proof -
  define w3 where "w3 =
    emit (LogWarn (''module '' @ moduleCode r @ '' is loading external JavaScript''))
      (case callback r of
         Function cb \<Rightarrow>
           storeCacheObject (target_doc r) (url r)
             (\<lparr>loaded = False, tag = None, callbacks = []\<rparr>
                \<lparr>callbacks := callbacks \<lparr>loaded = False, tag = None, callbacks = []\<rparr> @ [cb]\<rparr>)
             (storeCacheObject (target_doc r) (url r) \<lparr>loaded = False, tag = None, callbacks = []\<rparr>
                (emit (IsActivityAllowed LOAD_EXTERNAL_SCRIPT (activityParams (moduleType r) (moduleCode r))) w))
       | _ \<Rightarrow> storeCacheObject (target_doc r) (url r) \<lparr>loaded = False, tag = None, callbacks = []\<rparr>
                (emit (IsActivityAllowed LOAD_EXTERNAL_SCRIPT (activityParams (moduleType r) (moduleCode r))) w))"
  define rr where
    "rr = requestResource en (url r) (url r) (target_doc r, url r) (Some (target_doc r)) (attributes r) w3"
  have eq: "loadExternalScript en r w =
              (case fst rr of Inl e \<Rightarrow> (Inl e, snd rr) | Inr h \<Rightarrow> (Inr (RetElement h), snd rr))"
    using assms unfolding rr_def w3_def loadExternalScript_def Let_def case_prod_sum accepted_def
    by simp
  have sc: "scripts w3 = scripts w"
    unfolding w3_def by (simp split: jsarg.splits)
  have tr: "trace w3 = trace w @ [gate_event r, LogWarn (''module '' @ moduleCode r @ '' is loading external JavaScript'')]"
    unfolding w3_def gate_event_def by (simp split: jsarg.splits)
  have ca: "cacheObjectAt w3 d' u' =
              (if d' = target_doc r \<and> u' = url r
               then Some \<lparr>loaded = False, tag = None, callbacks = fn_callbacks (callback r)\<rparr>
               else cacheObjectAt w d' u')" for d' u'
    unfolding w3_def by (auto simp: fn_callbacks_def split: jsarg.splits)
  have fst_eq: "fst (loadExternalScript en r w) = (case fst rr of Inl e \<Rightarrow> Inl e | Inr h \<Rightarrow> Inr (RetElement h))"
    and snd_eq: "snd (loadExternalScript en r w) = snd rr"
    unfolding eq by (simp_all split: sum.splits)
  show "fst (loadExternalScript en r w) =
           (if createElement_throws en then Inl CreateElementThrew
            else if attributes r \<noteq> None \<and> setScriptAttributes_throws en then Inl SetScriptAttributesThrew
            else if insertElement_throws en then Inl InsertElementThrew
            else Inr (RetElement (length (scripts w))))"
    unfolding fst_eq rr_def requestResource_result sc by simp
  show "scripts (snd (loadExternalScript en r w)) =
           (if createElement_throws en then scripts w
            else scripts w @ [created_script en (target_doc r) (target_doc r, url r) (url r) (attributes r)])"
    unfolding snd_eq rr_def requestResource_scripts sc by simp
  show "cacheObjectAt (snd (loadExternalScript en r w)) d' u' =
           (if d' = target_doc r \<and> u' = url r
            then Some \<lparr>loaded = False,
                       tag = (if createElement_throws en then None else Some (length (scripts w))),
                       callbacks = fn_callbacks (callback r)\<rparr>
            else cacheObjectAt w d' u')"
    unfolding snd_eq rr_def requestResource_cache sc ca by auto
  show "trace (snd (loadExternalScript en r w)) =
           trace w @ [gate_event r,
                      LogWarn (''module '' @ moduleCode r @ '' is loading external JavaScript''),
                      CreateElement (target_doc r)] @
             (if createElement_throws en then []
              else (case attributes r of None \<Rightarrow> [] | Some kvs \<Rightarrow> [SetScriptAttributes (length (scripts w)) kvs]) @
                   (if attributes r \<noteq> None \<and> setScriptAttributes_throws en then []
                    else [InsertElement (length (scripts w)) (target_doc r)]))"
    unfolding snd_eq rr_def requestResource_trace sc tr by simp
qed

lemma cacheObjectAt_cong: "requestCache w = requestCache w' \<Longrightarrow> cacheObjectAt w d u = cacheObjectAt w' d u"
  by (simp add: cacheObjectAt_def)

lemma loadExternalScript_hit_loaded_cache:
  assumes "accepted en r" and "cacheObjectAt w (target_doc r) (url r) = Some c" and "loaded c"
  shows "requestCache (snd (loadExternalScript en r w)) = requestCache w"
  using assms(1,3) assms(2) [folded getCacheObject_CacheObject]
  by (auto simp: loadExternalScript_def accepted_def Let_def invoke_def split: jsarg.splits)

lemma loadExternalScript_trace:
  "trace (snd (loadExternalScript en r w)) = trace w @ call_events en r w"
proof (cases "accepted en r")
  case False
  then show ?thesis
    using loadExternalScript_rejected(4) [of en r w]
    by (auto simp: call_events_def accepted_def)
next
  case True
  show ?thesis
  proof (cases "getCacheObject w (target_doc r) (url r)")
    case Null
    then show ?thesis
      using loadExternalScript_miss(4) [OF True, of w] True
      by (simp add: call_events_def accepted_def)
  next
    case (CacheObject c)
    then show ?thesis
      using loadExternalScript_hit(4) [OF True CacheObject [unfolded getCacheObject_CacheObject]] True
      by (simp add: call_events_def accepted_def)
  next
    case Foreign
    then show ?thesis
      using loadExternalScript_foreign(4) [OF True, of w] True
      by (simp add: call_events_def accepted_def)
  qed
qed

lemma loadExternalScript_scripts:
  "scripts (snd (loadExternalScript en r w)) =
     (if accepted en r \<and> getCacheObject w (target_doc r) (url r) = Null \<and> \<not> createElement_throws en
      then scripts w @ [created_script en (target_doc r) (target_doc r, url r) (url r) (attributes r)]
      else scripts w)"
proof (cases "accepted en r")
  case False
  then show ?thesis using loadExternalScript_rejected(3) [of en r w] by simp
next
  case True
  show ?thesis
  proof (cases "getCacheObject w (target_doc r) (url r)")
    case Null
    then show ?thesis using loadExternalScript_miss(2) [OF True, of w] True by simp
  next
    case (CacheObject c)
    then show ?thesis
      using loadExternalScript_hit(2) [OF True CacheObject [unfolded getCacheObject_CacheObject]] by simp
  next
    case Foreign
    then show ?thesis using loadExternalScript_foreign(3) [OF True, of w] by simp
  qed
qed

lemma loadExternalScript_cache:
  "cacheObjectAt (snd (loadExternalScript en r w)) d u =
     (if accepted en r \<and> d = target_doc r \<and> u = url r
      then (case getCacheObject w d u of
              Null \<Rightarrow> Some \<lparr>loaded = False,
                            tag = (if createElement_throws en then None else Some (length (scripts w))),
                            callbacks = fn_callbacks (callback r)\<rparr>
            | CacheObject c \<Rightarrow> Some (if loaded c then c
                                     else c\<lparr>callbacks := callbacks c @ fn_callbacks (callback r)\<rparr>)
            | Foreign \<Rightarrow> None)
      else cacheObjectAt w d u)"
proof (cases "accepted en r")
  case False
  then show ?thesis
    using cacheObjectAt_cong [OF loadExternalScript_rejected(2) [of en r w]] by simp
next
  case True
  show ?thesis
  proof (cases "getCacheObject w (target_doc r) (url r)")
    case Null
    then show ?thesis using loadExternalScript_miss(3) [OF True, of w d u] True by auto
  next
    case (CacheObject c)
    then show ?thesis
      using loadExternalScript_hit(3) [OF True CacheObject [unfolded getCacheObject_CacheObject], of d u] True
            CacheObject [unfolded getCacheObject_CacheObject]
      by auto
  next
    case Foreign
    then show ?thesis
      using cacheObjectAt_cong [OF loadExternalScript_foreign(2) [OF True, of w]]
            getCacheObject_Foreign [of w "target_doc r" "url r"]
      by auto
  qed
qed


text \<open>The two dispatchers.\<close>

lemma dispatchLoad_scripts [simp]: "scripts (dispatchLoad h w) = scripts w"
  by (simp add: dispatchLoad_def onload_handler_def split: option.splits)

lemma dispatchLoad_cache:
  "cacheObjectAt (dispatchLoad h w) d u =
     (if deliverable h w \<and> onload (scripts w ! h) = Some (d, u)
      then map_option (\<lambda>c. c\<lparr>loaded := True\<rparr>) (cacheObjectAt w d u)
      else cacheObjectAt w d u)"
  by (auto simp: dispatchLoad_def onload_handler_def cacheObjectAt_scriptLoaded split: option.splits)

lemma dispatchLoad_trace:
  "trace (dispatchLoad h w) =
     trace w @
       (if deliverable h w
        then (case onload (scripts w ! h) of
                None \<Rightarrow> []
              | Some cl \<Rightarrow> (case cacheObjectAt w (fst cl) (snd cl) of
                             None \<Rightarrow> []
                           | Some c \<Rightarrow> drain_events (fst cl) (snd cl) (callbacks c)))
        else [])"
  by (auto simp: dispatchLoad_def onload_handler_def trace_scriptLoaded split: option.splits)

lemma dispatchReadyStateChange_scripts:
  "scripts (dispatchReadyStateChange h rs w) =
     (if deliverable h w
      then (scripts w)[h := (scripts w ! h)
             \<lparr>readyState := rs,
              onreadystatechange := (if rs = ''loaded'' \<or> rs = ''complete'' then None
                                     else onreadystatechange (scripts w ! h))\<rparr>]
      else scripts w)"
  by (cases "onreadystatechange (scripts w ! h)")
     (auto simp: dispatchReadyStateChange_def onreadystatechange_handler_def Let_def scripts_updateScript deliverable_def
                 list_eq_iff_nth_eq nth_list_update)

lemma dispatchReadyStateChange_cache:
  "cacheObjectAt (dispatchReadyStateChange h rs w) d u =
     (if rsc_fires h rs w = Some (d, u)
      then map_option (\<lambda>c. c\<lparr>loaded := True\<rparr>) (cacheObjectAt w d u)
      else cacheObjectAt w d u)"
  by (cases "onreadystatechange (scripts w ! h)")
     (auto simp: dispatchReadyStateChange_def onreadystatechange_handler_def Let_def scripts_updateScript deliverable_def
                 rsc_fires_def cacheObjectAt_scriptLoaded split: if_splits)

lemma dispatchReadyStateChange_trace:
  "trace (dispatchReadyStateChange h rs w) =
     trace w @
       (case rsc_fires h rs w of
          None \<Rightarrow> []
        | Some cl \<Rightarrow> (case cacheObjectAt w (fst cl) (snd cl) of
                       None \<Rightarrow> []
                     | Some c \<Rightarrow> drain_events (fst cl) (snd cl) (callbacks c)))"
  by (cases "onreadystatechange (scripts w ! h)")
     (auto simp: dispatchReadyStateChange_def onreadystatechange_handler_def Let_def scripts_updateScript deliverable_def
                 rsc_fires_def trace_scriptLoaded split: option.splits)

lemma exec_snd_Cons [simp]: "snd (exec (a # as) w) = snd (exec as (snd (step a w)))"
  by (simp split: prod.splits)

lemma exec_fst_Cons [simp]: "fst (exec (a # as) w) = fst (step a w) # fst (exec as (snd (step a w)))"
  by (simp split: prod.splits)

declare exec.simps(2) [simp del]

lemma exec_Nil [simp]: "snd (exec [] w) = w" "fst (exec [] w) = []"
  by simp_all

lemma exec_invariant:
  assumes "\<And>a w. P w \<Longrightarrow> P (snd (step a w))" and "P w"
  shows "P (snd (exec as w))"
  using assms(2)
proof (induction as arbitrary: w)
  case Nil
  then show ?case by simp
next
  case (Cons a as)
  then show ?case using assms(1) by simp
qed

lemma length_fst_exec [simp]: "length (fst (exec as w)) = length as"
  by (induction as arbitrary: w) simp_all

lemma handles_in_append [simp]: "handles_in (xs @ ys) = handles_in xs @ handles_in ys"
  by (induction xs) (simp_all split: option.splits)

lemma handles_in_map_Invoke [simp]: "handles_in (map (\<lambda>cb. Invoke d u (cb_id cb)) cbs) = []"
  by (induction cbs) simp_all

lemma handles_in_drain [simp]: "handles_in (drain_events d u cbs) = []"
  by (simp add: drain_events_def split: list.splits)

lemma handles_in_call:
  "handles_in (call_events en r w) =
     (if accepted en r \<and> getCacheObject w (target_doc r) (url r) = Null \<and> \<not> createElement_throws en
      then (case attributes r of None \<Rightarrow> [] | Some kvs \<Rightarrow> [length (scripts w)]) @
           (if attributes r \<noteq> None \<and> setScriptAttributes_throws en then [] else [length (scripts w)])
      else [])"
  by (simp add: call_events_def gate_event_def accepted_def split: option.splits lookup.splits)

lemma step_trace: "trace (snd (step a w)) = trace w @ step_events a w"
proof (cases a)
  case (Request en r)
  then show ?thesis by (simp add: step_events_def loadExternalScript_trace)
next
  case (LoadEvent h)
  then show ?thesis by (simp add: step_events_def dispatchLoad_trace)
next
  case (ReadyStateChangeEvent h rs)
  then show ?thesis by (simp add: step_events_def dispatchReadyStateChange_trace)
qed

lemma step_events_handles:
  assumes "h \<in> set (handles_in (step_events a w))"
  shows "h = length (scripts w) \<and> h < length (scripts (snd (step a w)))"
proof (cases a)
  case (Request en r)
  then have "h \<in> set (handles_in (call_events en r w))"
    using assms by (simp add: step_events_def loadExternalScript_trace)
  then show ?thesis
    unfolding handles_in_call using Request
    by (auto simp: loadExternalScript_scripts split: if_splits option.splits)
next
  case (LoadEvent k)
  then have "step_events a w =
       (if deliverable k w
        then (case onload (scripts w ! k) of
                None \<Rightarrow> []
              | Some cl \<Rightarrow> (case cacheObjectAt w (fst cl) (snd cl) of
                             None \<Rightarrow> []
                           | Some c \<Rightarrow> drain_events (fst cl) (snd cl) (callbacks c)))
        else [])"
    by (simp add: step_events_def dispatchLoad_trace)
  then have "handles_in (step_events a w) = []"
    by (simp split: option.splits)
  with assms show ?thesis by simp
next
  case (ReadyStateChangeEvent k rs)
  then have "step_events a w =
       (case rsc_fires k rs w of
          None \<Rightarrow> []
        | Some cl \<Rightarrow> (case cacheObjectAt w (fst cl) (snd cl) of
                       None \<Rightarrow> []
                     | Some c \<Rightarrow> drain_events (fst cl) (snd cl) (callbacks c)))"
    by (simp add: step_events_def dispatchReadyStateChange_trace)
  then have "handles_in (step_events a w) = []"
    by (simp split: option.splits)
  with assms show ?thesis by simp
qed

lemma step_length: "length (scripts w) \<le> length (scripts (snd (step a w)))"
  by (cases a) (simp_all add: loadExternalScript_scripts dispatchReadyStateChange_scripts)

lemma step_old_script:
  assumes "k < length (scripts w)"
  shows "ownerDocument (scripts (snd (step a w)) ! k) = ownerDocument (scripts w ! k)"
    and "src (scripts (snd (step a w)) ! k) = src (scripts w ! k)"
    and "attribs (scripts (snd (step a w)) ! k) = attribs (scripts w ! k)"
    and "inserted (scripts (snd (step a w)) ! k) = inserted (scripts w ! k)"
    and "onload (scripts (snd (step a w)) ! k) = onload (scripts w ! k)"
    and "onreadystatechange (scripts (snd (step a w)) ! k) = onreadystatechange (scripts w ! k)
         \<or> onreadystatechange (scripts (snd (step a w)) ! k) = None"
  using assms
  by (cases a; simp add: loadExternalScript_scripts dispatchReadyStateChange_scripts nth_append nth_list_update
        deliverable_def)+

lemma step_new_script:
  assumes "length (scripts w) \<le> k" and "k < length (scripts (snd (step a w)))"
  shows "\<exists>en r. a = Request en r \<and> accepted en r \<and> getCacheObject w (target_doc r) (url r) = Null
           \<and> k = length (scripts w)
           \<and> scripts (snd (step a w)) ! k =
               created_script en (target_doc r) (target_doc r, url r) (url r) (attributes r)"
  using assms
  by (cases a) (auto simp: loadExternalScript_scripts dispatchReadyStateChange_scripts nth_append
                     split: if_splits)

lemma step_cache_persists:
  assumes "cacheObjectAt w d u = Some c"
  shows "\<exists>c'. cacheObjectAt (snd (step a w)) d u = Some c' \<and> tag c' = tag c
            \<and> (loaded c \<longrightarrow> loaded c' \<and> callbacks c' = callbacks c)
            \<and> (\<exists>more. callbacks c' = callbacks c @ more)"
  using assms assms [folded getCacheObject_CacheObject]
  by (cases a) (auto simp: loadExternalScript_cache dispatchLoad_cache dispatchReadyStateChange_cache)

lemma step_cache_new:
  assumes "cacheObjectAt w d u = None" and "cacheObjectAt (snd (step a w)) d u = Some c"
  shows "\<exists>en r. a = Request en r \<and> accepted en r \<and> d = target_doc r \<and> u = url r
           \<and> c = \<lparr>loaded = False,
                   tag = (if createElement_throws en then None else Some (length (scripts w))),
                   callbacks = fn_callbacks (callback r)\<rparr>"
  using assms
  by (cases a) (auto simp: loadExternalScript_cache dispatchLoad_cache dispatchReadyStateChange_cache
                     getCacheObject_CacheObject split: if_splits lookup.splits)

lemma wf_init: "wf init"
  by (simp add: wf_def init_def)

lemma tagged_init: "tagged init"
  by (simp add: tagged_def init_def cacheObjectAt_def)

lemma created_script_simps [simp]:
  "ownerDocument (created_script en d cl u a) = d"
  "src (created_script en d cl u a) = u"
  "onload (created_script en d cl u a) = (if newReadyState en \<noteq> [] then None else Some cl)"
  "onreadystatechange (created_script en d cl u a) = (if newReadyState en \<noteq> [] then Some cl else None)"
  "inserted (created_script en d cl u a) = (\<not> creation_throws en a)"
  "attribs (created_script en d cl u a) =
     (case a of None \<Rightarrow> [] | Some kvs \<Rightarrow> if setScriptAttributes_throws en then [] else setScriptAttributes [] kvs)"
  by (simp_all add: created_script_def)

lemma wf_step:
  assumes "wf w"
  shows "wf (snd (step a w))"
proof -
  let ?w = "snd (step a w)"
  have scripts_ok:
    "cacheObjectAt ?w (ownerDocument s) (src s) \<noteq> None
     \<and> (\<forall>cl. onload s = Some cl \<or> onreadystatechange s = Some cl \<longrightarrow> cl = (ownerDocument s, src s))"
    if "s \<in> set (scripts ?w)" for s
  proof -
    from that obtain k where k: "k < length (scripts ?w)" and s: "s = scripts ?w ! k"
      by (auto simp: in_set_conv_nth)
    show ?thesis
    proof (cases "k < length (scripts w)")
      case True
      let ?old = "scripts w ! k"
      from True have mem: "?old \<in> set (scripts w)" by simp
      from assms mem obtain c where c: "cacheObjectAt w (ownerDocument ?old) (src ?old) = Some c"
        by (auto simp: wf_def)
      from assms mem have cl: "\<forall>cl. onload ?old = Some cl \<or> onreadystatechange ?old = Some cl \<longrightarrow>
                                  cl = (ownerDocument ?old, src ?old)"
        by (simp add: wf_def)
      from step_cache_persists [OF c, of a]
      have "cacheObjectAt ?w (ownerDocument ?old) (src ?old) \<noteq> None" by auto
      then show ?thesis
        using step_old_script [OF True, of a] cl s by auto
    next
      case False
      then have "length (scripts w) \<le> k" by simp
      from step_new_script [OF this k] obtain en r where
        a: "a = Request en r" and acc: "accepted en r"
        and miss: "getCacheObject w (target_doc r) (url r) = Null"
        and sk: "scripts ?w ! k = created_script en (target_doc r) (target_doc r, url r) (url r) (attributes r)"
        by auto
      have "cacheObjectAt ?w (target_doc r) (url r) \<noteq> None"
        using a acc miss by (simp add: loadExternalScript_cache)
      then show ?thesis
        using s sk by (simp split: if_splits)
    qed
  qed
  have handles_ok: "h < length (scripts ?w)" if "h \<in> set (handles_in (trace ?w))" for h
  proof -
    from that have "h \<in> set (handles_in (trace w)) \<or> h \<in> set (handles_in (step_events a w))"
      by (simp add: step_trace [of a w])
    then show ?thesis
    proof
      assume "h \<in> set (handles_in (trace w))"
      with assms have "h < length (scripts w)" by (simp add: wf_def)
      with step_length [of w a] show ?thesis by simp
    next
      assume "h \<in> set (handles_in (step_events a w))"
      then show ?thesis using step_events_handles by blast
    qed
  qed
  show ?thesis
    unfolding wf_def using scripts_ok handles_ok by blast
qed

lemma wf_exec: "wf w \<Longrightarrow> wf (snd (exec as w))"
  by (rule exec_invariant [where P = wf]) (rule wf_step)

lemma tagged_step:
  assumes "tagged w" and "\<And>en r. a = Request en r \<Longrightarrow> \<not> createElement_throws en"
  shows "tagged (snd (step a w))"
  unfolding tagged_def
proof (intro allI impI)
  fix d u c'
  assume c': "cacheObjectAt (snd (step a w)) d u = Some c'"
  show "tag c' \<noteq> None"
  proof (cases "cacheObjectAt w d u")
    case None
    from step_cache_new [OF None c'] assms(2) show ?thesis by auto
  next
    case (Some c)
    from step_cache_persists [OF Some, of a] c' have "tag c' = tag c" by auto
    moreover from assms(1) Some have "tag c \<noteq> None" by (auto simp: tagged_def)
    ultimately show ?thesis by simp
  qed
qed

lemma tagged_exec:
  assumes "tagged w" and "\<And>en r. Request en r \<in> set as \<Longrightarrow> \<not> createElement_throws en"
  shows "tagged (snd (exec as w))"
  using assms
proof (induction as arbitrary: w)
  case Nil
  then show ?case by simp
next
  case (Cons a as)
  have "tagged (snd (step a w))"
    using Cons.prems by (intro tagged_step) auto
  moreover have "\<not> createElement_throws en" if "Request en r \<in> set as" for en r
    using Cons.prems(2) [of en r] that by simp
  ultimately have "tagged (snd (exec as (snd (step a w))))"
    by (rule Cons.IH)
  then show ?case by simp
qed

lemma event_handle_in_handles:
  "e \<in> set evs \<Longrightarrow> event_handle e = Some h \<Longrightarrow> h \<in> set (handles_in evs)"
  by (induction evs) (auto split: option.splits)

lemma sets_attributes_of_handle: "sets_attributes_of h e \<Longrightarrow> event_handle e = Some h"
  by (cases e) simp_all

lemma step_events_old_attributes:
  assumes "k < length (scripts w)"
  shows "filter (sets_attributes_of k) (step_events a w) = []"
proof -
  have "\<not> sets_attributes_of k e" if "e \<in> set (step_events a w)" for e
  proof
    assume "sets_attributes_of k e"
    then have "event_handle e = Some k" by (rule sets_attributes_of_handle)
    with that have "k \<in> set (handles_in (step_events a w))" by (rule event_handle_in_handles)
    then have "k = length (scripts w)" using step_events_handles by blast
    with assms show False by simp
  qed
  then show ?thesis by (simp add: filter_empty_conv)
qed

lemma exec_old_script:
  assumes "k < length (scripts w)"
  shows "k < length (scripts (snd (exec as w)))
         \<and> attribs (scripts (snd (exec as w)) ! k) = attribs (scripts w ! k)
         \<and> ownerDocument (scripts (snd (exec as w)) ! k) = ownerDocument (scripts w ! k)
         \<and> src (scripts (snd (exec as w)) ! k) = src (scripts w ! k)
         \<and> inserted (scripts (snd (exec as w)) ! k) = inserted (scripts w ! k)
         \<and> filter (sets_attributes_of k) (trace (snd (exec as w))) = filter (sets_attributes_of k) (trace w)"
  using assms
proof (induction as arbitrary: w)
  case Nil
  then show ?case by simp
next
  case (Cons a as)
  have k: "k < length (scripts (snd (step a w)))"
    using Cons.prems step_length [of w a] by simp
  have tr: "filter (sets_attributes_of k) (trace (snd (step a w))) = filter (sets_attributes_of k) (trace w)"
    by (simp add: step_trace [of a w] step_events_old_attributes [OF Cons.prems])
  show ?case
    using Cons.IH [OF k] step_old_script [OF Cons.prems, of a] tr by simp
qed

lemma with_context_simps [simp]:
  "scripts (with_context d t w) = scripts w"
  "trace (with_context d t w) = trace w"
  "requestCache (with_context d t w) = (requestCache w)(d := t)"
  by (simp_all add: with_context_def)

lemma cacheObjectAt_with_context [simp]:
  "d \<noteq> d' \<Longrightarrow> cacheObjectAt (with_context d' t w) d u = cacheObjectAt w d u"
  by (simp add: cacheObjectAt_def)

lemma getCacheObject_with_context [simp]:
  "d \<noteq> d' \<Longrightarrow> getCacheObject (with_context d' t w) d u = getCacheObject w d u"
  by (simp add: getCacheObject_def)










lemma filter_upt_single:
  "filter P [0..<m] = [n] \<longleftrightarrow> n < m \<and> P n \<and> (\<forall>k<m. P k \<longrightarrow> k = n)"
proof
  assume eq: "filter P [0..<m] = [n]"
  then have "set (filter P [0..<m]) = {n}" by simp
  then show "n < m \<and> P n \<and> (\<forall>k<m. P k \<longrightarrow> k = n)" by auto
next
  assume h: "n < m \<and> P n \<and> (\<forall>k<m. P k \<longrightarrow> k = n)"
  have d: "distinct (filter P [0..<m])" by simp
  have s: "set (filter P [0..<m]) = {n}" using h by auto
  have "length (filter P [0..<m]) = card (set (filter P [0..<m]))"
    by (rule distinct_card [OF d, symmetric])
  then have "length (filter P [0..<m]) = 1" unfolding s by simp
  then obtain x where x: "filter P [0..<m] = [x]"
    by (cases "filter P [0..<m]") auto
  with s show "filter P [0..<m] = [n]" by auto
qed

lemma scripts_of_single:
  "scripts_of d u w = [n] \<longleftrightarrow>
     n < length (scripts w) \<and> ownerDocument (scripts w ! n) = d \<and> src (scripts w ! n) = u
     \<and> (\<forall>k < length (scripts w). ownerDocument (scripts w ! k) = d \<and> src (scripts w ! k) = u \<longrightarrow> k = n)"
  unfolding scripts_of_def filter_upt_single by blast

lemma inserts_handle: "inserts h e \<Longrightarrow> event_handle e = Some h"
  by (cases e) simp_all

lemma filter_old_handle_events:
  assumes "\<And>e. P e \<Longrightarrow> event_handle e = Some k" and "k < length (scripts w)"
  shows "filter P (step_events a w) = []"
proof -
  have "\<not> P e" if "e \<in> set (step_events a w)" for e
  proof
    assume "P e"
    then have "event_handle e = Some k" by (rule assms(1))
    with that have "k \<in> set (handles_in (step_events a w))" by (rule event_handle_in_handles)
    then have "k = length (scripts w)" using step_events_handles by blast
    with assms(2) show False by simp
  qed
  then show ?thesis by (simp add: filter_empty_conv)
qed

lemma filter_fresh_handle_events:
  assumes "\<And>e. P e \<Longrightarrow> event_handle e = Some k" and "wf w" and "length (scripts w) \<le> k"
  shows "filter P (trace w) = []"
proof -
  have "\<not> P e" if "e \<in> set (trace w)" for e
  proof
    assume "P e"
    then have "event_handle e = Some k" by (rule assms(1))
    with that have "k \<in> set (handles_in (trace w))" by (rule event_handle_in_handles)
    with assms(2,3) show False by (auto simp: wf_def)
  qed
  then show ?thesis by (simp add: filter_empty_conv)
qed

lemma loading_step:
  assumes "loading d u n w"
  shows "loading d u n (snd (step a w))"
    and "targets d u a \<Longrightarrow> fst (step a w) = Inr (RetElement n) \<or> own_callback_threw a (fst (step a w))"
proof -
  let ?w = "snd (step a w)"
  from assms obtain c where c: "cacheObjectAt w d u = Some c" and t: "tag c = Some n"
    by (auto simp: loading_def)
  from assms have so: "scripts_of d u w = [n]" by (simp add: loading_def)
  then have n: "n < length (scripts w)"
    and kn: "ownerDocument (scripts w ! n) = d" "src (scripts w ! n) = u"
    and un: "\<forall>k < length (scripts w). ownerDocument (scripts w ! k) = d \<and> src (scripts w ! k) = u \<longrightarrow> k = n"
    by (simp_all add: scripts_of_single)
  have e: "\<exists>c'. cacheObjectAt ?w d u = Some c' \<and> tag c' = Some n"
    using step_cache_persists [OF c, of a] t by auto
  have n': "n < length (scripts ?w)" using n step_length [of w a] by simp
  have un': "k = n" if k: "k < length (scripts ?w)"
    and kk: "ownerDocument (scripts ?w ! k) = d \<and> src (scripts ?w ! k) = u" for k
  proof (cases "k < length (scripts w)")
    case True
    with kk step_old_script(1,2) [OF True, of a] un show ?thesis by simp
  next
    case False
    then have "length (scripts w) \<le> k" by simp
    from step_new_script [OF this k] obtain en r where
      "getCacheObject w (target_doc r) (url r) = Null"
      "scripts ?w ! k = created_script en (target_doc r) (target_doc r, url r) (url r) (attributes r)"
      by auto
    with kk c show ?thesis by (auto dest: getCacheObject_Null)
  qed
  have kn': "ownerDocument (scripts ?w ! n) = d" "src (scripts ?w ! n) = u"
    using step_old_script(1,2) [OF n, of a] kn by simp_all
  have so': "scripts_of d u ?w = [n]"
    unfolding scripts_of_single using n' un' kn' by blast
  have "filter (inserts n) (step_events a w) = []"
    using inserts_handle n by (rule filter_old_handle_events)
  then have tr': "filter (inserts n) (trace ?w) = [InsertElement n d]"
    using assms by (simp add: step_trace [of a w] loading_def)
  show "loading d u n ?w"
    unfolding loading_def using e so' tr' by simp
  show "fst (step a w) = Inr (RetElement n) \<or> own_callback_threw a (fst (step a w))"
    if "targets d u a"
  proof (cases a)
    case (Request en r)
    with that have acc: "accepted en r" and key: "target_doc r = d" "url r = u" by simp_all
    have hit: "cacheObjectAt w (target_doc r) (url r) = Some c" using c key by simp
    have res: "fst (loadExternalScript en r w) =
           (case callback r of
              Function cb \<Rightarrow> if loaded c \<and> cb_throws cb then Inl (CallbackThrew (cb_id cb))
                             else Inr (RetElement n)
            | _ \<Rightarrow> Inr (RetElement n))"
      using loadExternalScript_hit(1) [OF acc hit] t by (simp add: ret_tag_def split: jsarg.splits)
    show ?thesis
      unfolding Request step.simps fst_conv res own_callback_threw.simps
      by (cases "callback r") simp_all
  qed (use that in simp_all)
qed

lemma loading_exec:
  assumes "loading d u n w"
  shows "loading d u n (snd (exec as w))
         \<and> list_all2 (\<lambda>a out. targets d u a \<longrightarrow> out = Inr (RetElement n) \<or> own_callback_threw a out)
              as (fst (exec as w))"
  using assms
proof (induction as arbitrary: w)
  case Nil
  then show ?case by simp
next
  case (Cons a as)
  from loading_step [OF Cons.prems, of a] Cons.IH [of "snd (step a w)"]
  show ?case by simp
qed

lemma first_request_starts_loading:
  assumes "wf w" and "accepted en r" and "getCacheObject w (target_doc r) (url r) = Null"
    and "\<not> createElement_throws en"
    and "\<not> (attributes r \<noteq> None \<and> setScriptAttributes_throws en)"
  shows "scripts_of (target_doc r) (url r) w = []"
    and "scripts_of (target_doc r) (url r) (snd (loadExternalScript en r w)) = [length (scripts w)]"
    and "filter (inserts (length (scripts w))) (trace (snd (loadExternalScript en r w))) =
           [InsertElement (length (scripts w)) (target_doc r)]"
proof -
  let ?w1 = "snd (loadExternalScript en r w)"
  let ?n = "length (scripts w)"
  have old: "\<not> (ownerDocument (scripts w ! k) = target_doc r \<and> src (scripts w ! k) = url r)"
    if "k < length (scripts w)" for k
  proof -
    from that have "scripts w ! k \<in> set (scripts w)" by simp
    with assms(1) have "cacheObjectAt w (ownerDocument (scripts w ! k)) (src (scripts w ! k)) \<noteq> None"
      by (simp add: wf_def)
    with getCacheObject_Null [OF assms(3)] show ?thesis by auto
  qed
  then show "scripts_of (target_doc r) (url r) w = []"
    by (simp add: scripts_of_def filter_empty_conv)
  have sc: "scripts ?w1 =
      scripts w @ [created_script en (target_doc r) (target_doc r, url r) (url r) (attributes r)]"
    using loadExternalScript_miss(2) [OF assms(2,3)] assms(4) by simp
  show "scripts_of (target_doc r) (url r) ?w1 = [?n]"
    unfolding scripts_of_single sc using old
    by (auto simp: nth_append less_Suc_eq)
  have "filter (inserts ?n) (trace w) = []"
    by (rule filter_fresh_handle_events [OF inserts_handle assms(1) order_refl])
  then show "filter (inserts ?n) (trace ?w1) = [InsertElement ?n (target_doc r)]"
    using loadExternalScript_miss(4) [OF assms(2,3)] assms(4,5)
    by (simp add: gate_event_def split: option.splits)
qed

lemma filter_upt_extend:
  assumes "m \<le> m'" and "\<And>k. k < m \<Longrightarrow> P' k = P k" and "\<And>k. m \<le> k \<Longrightarrow> k < m' \<Longrightarrow> \<not> P' k"
  shows "filter P' [0..<m'] = filter P [0..<m]"
proof -
  have "[0..<m'] = [0..<m] @ [m..<m']"
    using assms(1) upt_add_eq_append [of 0 m "m' - m"] by simp
  moreover have "filter P' [m..<m'] = []"
    using assms(3) by (simp add: filter_empty_conv)
  moreover have "filter P' [0..<m] = filter P [0..<m]"
    using assms(2) by (intro filter_cong) simp_all
  ultimately show ?thesis by simp
qed

lemma scripts_of_step:
  assumes "cacheObjectAt w d u \<noteq> None"
  shows "scripts_of d u (snd (step a w)) = scripts_of d u w"
  unfolding scripts_of_def
proof (rule filter_upt_extend)
  show "length (scripts w) \<le> length (scripts (snd (step a w)))" by (rule step_length)
next
  fix k assume "k < length (scripts w)"
  then show "(ownerDocument (scripts (snd (step a w)) ! k) = d \<and> src (scripts (snd (step a w)) ! k) = u) =
             (ownerDocument (scripts w ! k) = d \<and> src (scripts w ! k) = u)"
    using step_old_script(1,2) [of k w a] by simp
next
  fix k assume "length (scripts w) \<le> k" and "k < length (scripts (snd (step a w)))"
  from step_new_script [OF this] obtain en r where
    "getCacheObject w (target_doc r) (url r) = Null"
    "scripts (snd (step a w)) ! k = created_script en (target_doc r) (target_doc r, url r) (url r) (attributes r)"
    by auto
  with assms show "\<not> (ownerDocument (scripts (snd (step a w)) ! k) = d \<and> src (scripts (snd (step a w)) ! k) = u)"
    by (auto dest: getCacheObject_Null)
qed

lemma invokes_for_drain:
  "(d', u') \<noteq> (d, u) \<Longrightarrow> filter (invokes_for d u) (drain_events d' u' cbs) = []"
  by (auto simp: drain_events_def filter_empty_conv split: list.splits)

lemma invokes_for_call:
  assumes "\<forall>c. cacheObjectAt w d u = Some c \<longrightarrow> \<not> loaded c"
  shows "filter (invokes_for d u) (call_events en r w) = []"
  using assms
  by (auto simp: call_events_def gate_event_def filter_empty_conv fn_callbacks_def getCacheObject_CacheObject
           split: option.splits lookup.splits jsarg.splits if_splits)

lemma dispatchLoad_events:
  "trace (dispatchLoad h w) = trace w
   \<or> (\<exists>cl cbs. deliverable h w \<and> onload (scripts w ! h) = Some cl
          \<and> trace (dispatchLoad h w) = trace w @ drain_events (fst cl) (snd cl) cbs)"
proof (cases "deliverable h w")
  case False
  then show ?thesis by (simp add: dispatchLoad_trace)
next
  case True
  show ?thesis
  proof (cases "onload (scripts w ! h)")
    case None
    with True show ?thesis by (simp add: dispatchLoad_trace)
  next
    case (Some cl)
    with True show ?thesis
      by (cases "cacheObjectAt w (fst cl) (snd cl)") (auto simp: dispatchLoad_trace)
  qed
qed

lemma dispatchReadyStateChange_events:
  "trace (dispatchReadyStateChange h rs w) = trace w
   \<or> (\<exists>cl cbs. rsc_fires h rs w = Some cl
          \<and> trace (dispatchReadyStateChange h rs w) = trace w @ drain_events (fst cl) (snd cl) cbs)"
proof (cases "rsc_fires h rs w")
  case None
  then show ?thesis by (simp add: dispatchReadyStateChange_trace)
next
  case (Some cl)
  then show ?thesis
    by (cases "cacheObjectAt w (fst cl) (snd cl)") (auto simp: dispatchReadyStateChange_trace)
qed

lemma dead_step:
  assumes "dead d u w" and c: "cacheObjectAt w d u = Some c"
  shows "dead d u (snd (step a w))"
    and "cacheObjectAt (snd (step a w)) d u = Some (c\<lparr>callbacks := callbacks c @ registered d u [a]\<rparr>)"
    and "filter (invokes_for d u) (step_events a w) = []"
proof -
  let ?w = "snd (step a w)"
  from assms have nl: "\<not> loaded c" by (auto simp: dead_def)
  from assms(1) have hd: "\<And>k. k < length (scripts w) \<Longrightarrow> inserted (scripts w ! k) \<Longrightarrow>
      onload (scripts w ! k) \<noteq> Some (d, u) \<and> onreadystatechange (scripts w ! k) \<noteq> Some (d, u)"
    by (simp add: dead_def)
  have cache: "cacheObjectAt ?w d u = Some (c\<lparr>callbacks := callbacks c @ registered d u [a]\<rparr>)"
  proof (cases a)
    case (Request en r)
    then show ?thesis
      using c c [folded getCacheObject_CacheObject] nl by (auto simp: loadExternalScript_cache)
  next
    case (LoadEvent h)
    then show ?thesis using c hd [of h] by (auto simp: dispatchLoad_cache deliverable_def)
  next
    case (ReadyStateChangeEvent h rs)
    have "rsc_fires h rs w \<noteq> Some (d, u)"
      using hd [of h] by (auto simp: rsc_fires_def deliverable_def)
    then show ?thesis using ReadyStateChangeEvent c by (simp add: dispatchReadyStateChange_cache)
  qed
  have events: "filter (invokes_for d u) (step_events a w) = []"
  proof (cases a)
    case (Request en r)
    have "filter (invokes_for d u) (call_events en r w) = []"
      using c nl by (intro invokes_for_call) simp
    then show ?thesis using Request by (simp add: step_events_def loadExternalScript_trace)
  next
    case (LoadEvent h)
    have "filter (invokes_for d u) (drain_events (fst cl) (snd cl) cbs) = []"
      if "deliverable h w" and "onload (scripts w ! h) = Some cl" for cl cbs
      using hd [of h] that by (intro invokes_for_drain) (auto simp: deliverable_def)
    then show ?thesis
      using LoadEvent dispatchLoad_events [of h w] by (auto simp: step_events_def)
  next
    case (ReadyStateChangeEvent h rs)
    have nf: "rsc_fires h rs w \<noteq> Some (d, u)"
      using hd [of h] by (auto simp: rsc_fires_def deliverable_def)
    have "filter (invokes_for d u) (drain_events (fst cl) (snd cl) cbs) = []"
      if "rsc_fires h rs w = Some cl" for cl cbs
      using nf that by (intro invokes_for_drain) auto
    then show ?thesis
      using ReadyStateChangeEvent dispatchReadyStateChange_events [of h rs w]
      by (auto simp: step_events_def)
  qed
  show "cacheObjectAt ?w d u = Some (c\<lparr>callbacks := callbacks c @ registered d u [a]\<rparr>)" by (rule cache)
  show "filter (invokes_for d u) (step_events a w) = []" by (rule events)
  have handlers: "onload (scripts ?w ! k) \<noteq> Some (d, u) \<and> onreadystatechange (scripts ?w ! k) \<noteq> Some (d, u)"
    if k: "k < length (scripts ?w)" and ins: "inserted (scripts ?w ! k)" for k
  proof (cases "k < length (scripts w)")
    case True
    with ins step_old_script(4) [OF True, of a] have "inserted (scripts w ! k)" by simp
    from hd [OF True this] step_old_script(5,6) [OF True, of a] show ?thesis by auto
  next
    case False
    then have "length (scripts w) \<le> k" by simp
    from step_new_script [OF this k] obtain en r where
      m: "getCacheObject w (target_doc r) (url r) = Null"
      and s: "scripts ?w ! k = created_script en (target_doc r) (target_doc r, url r) (url r) (attributes r)"
      by auto
    from getCacheObject_Null [OF m] c have "(target_doc r, url r) \<noteq> (d, u)" by auto
    then show ?thesis unfolding s by (auto split: if_splits)
  qed
  show "dead d u ?w"
    unfolding dead_def using cache nl handlers by simp
qed

lemma registered_Cons: "registered d u (a # as) = registered d u [a] @ registered d u as"
  by (cases a) simp_all

lemma dead_exec:
  assumes "dead d u w" and "cacheObjectAt w d u = Some c"
  shows "cacheObjectAt (snd (exec as w)) d u = Some (c\<lparr>callbacks := callbacks c @ registered d u as\<rparr>)
         \<and> filter (invokes_for d u) (trace (snd (exec as w))) = filter (invokes_for d u) (trace w)
         \<and> scripts_of d u (snd (exec as w)) = scripts_of d u w"
  using assms
proof (induction as arbitrary: w c)
  case Nil
  then show ?case by simp
next
  case (Cons a as)
  let ?c = "c\<lparr>callbacks := callbacks c @ registered d u [a]\<rparr>"
  note st = dead_step [OF Cons.prems, of a]
  have so: "scripts_of d u (snd (step a w)) = scripts_of d u w"
    using Cons.prems(2) by (intro scripts_of_step) simp
  have tr: "filter (invokes_for d u) (trace (snd (step a w))) = filter (invokes_for d u) (trace w)"
    using st(3) by (simp add: step_trace [of a w])
  from Cons.IH [OF st(1,2)] so tr
  show ?case
    by (simp add: registered_Cons [of d u a as])
qed

lemma failed_request_is_dead:
  assumes "wf w" and "accepted en r" and "getCacheObject w (target_doc r) (url r) = Null"
    and "creation_throws en (attributes r)"
  shows "dead (target_doc r) (url r) (snd (loadExternalScript en r w))"
    and "scripts_of (target_doc r) (url r) (snd (loadExternalScript en r w)) =
           (if createElement_throws en then [] else [length (scripts w)])"
    and "filter (invokes_for (target_doc r) (url r)) (trace (snd (loadExternalScript en r w))) =
           filter (invokes_for (target_doc r) (url r)) (trace w)"
    and "\<not> createElement_throws en \<Longrightarrow>
           \<not> inserted (scripts (snd (loadExternalScript en r w)) ! length (scripts w))"
proof -
  let ?w1 = "snd (loadExternalScript en r w)"
  let ?d = "target_doc r" and ?u = "url r"
  let ?s = "created_script en ?d (?d, ?u) ?u (attributes r)"
  have sc: "scripts ?w1 = (if createElement_throws en then scripts w else scripts w @ [?s])"
    using loadExternalScript_miss(2) [OF assms(2,3)] .
  have ni: "\<not> inserted ?s" using assms(4) by simp
  have old: "cacheObjectAt w (ownerDocument (scripts w ! k)) (src (scripts w ! k)) \<noteq> None
             \<and> onload (scripts w ! k) \<noteq> Some (?d, ?u) \<and> onreadystatechange (scripts w ! k) \<noteq> Some (?d, ?u)"
    if "k < length (scripts w)" for k
  proof -
    from that have "scripts w ! k \<in> set (scripts w)" by simp
    with assms(1) have e: "cacheObjectAt w (ownerDocument (scripts w ! k)) (src (scripts w ! k)) \<noteq> None"
      and h: "\<forall>cl. onload (scripts w ! k) = Some cl \<or> onreadystatechange (scripts w ! k) = Some cl \<longrightarrow>
                   cl = (ownerDocument (scripts w ! k), src (scripts w ! k))"
      by (simp_all add: wf_def)
    from e h getCacheObject_Null [OF assms(3)] show ?thesis by auto
  qed
  have "\<exists>c. cacheObjectAt ?w1 ?d ?u = Some c \<and> \<not> loaded c"
    using loadExternalScript_miss(3) [OF assms(2,3), of ?d ?u] by simp
  moreover have "onload (scripts ?w1 ! k) \<noteq> Some (?d, ?u) \<and> onreadystatechange (scripts ?w1 ! k) \<noteq> Some (?d, ?u)"
    if "k < length (scripts ?w1)" and "inserted (scripts ?w1 ! k)" for k
    using that old [of k] ni unfolding sc
    by (cases "k < length (scripts w)") (auto simp: nth_append less_Suc_eq split: if_splits)
  ultimately show "dead ?d ?u ?w1"
    unfolding dead_def by blast
  have nokey: "\<not> (ownerDocument (scripts w ! k) = ?d \<and> src (scripts w ! k) = ?u)"
    if "k < length (scripts w)" for k
    using old [OF that] getCacheObject_Null [OF assms(3)] by force
  have none: "scripts_of ?d ?u w = []"
    using nokey by (simp add: scripts_of_def filter_empty_conv)
  show "scripts_of ?d ?u ?w1 = (if createElement_throws en then [] else [length (scripts w)])"
  proof (cases "createElement_throws en")
    case True
    then show ?thesis using none sc by (simp add: scripts_of_def)
  next
    case False
    have "scripts_of ?d ?u ?w1 = [length (scripts w)]"
      unfolding scripts_of_single using sc False nokey
      by (auto simp: nth_append less_Suc_eq)
    with False show ?thesis by simp
  qed
  show "filter (invokes_for ?d ?u) (trace ?w1) = filter (invokes_for ?d ?u) (trace w)"
    using loadExternalScript_miss(4) [OF assms(2,3)]
    by (simp add: gate_event_def split: option.splits)
  show "\<not> inserted (scripts ?w1 ! length (scripts w))" if "\<not> createElement_throws en"
    using that sc ni by simp
qed


lemma reached_none_throws: "\<forall>cb \<in> set cbs. \<not> cb_throws cb \<Longrightarrow> reached cbs = cbs"
  by (induction cbs) simp_all

lemma reached_first_throw:
  "\<forall>cb \<in> set pre. \<not> cb_throws cb \<Longrightarrow> cb_throws cb \<Longrightarrow> reached (pre @ cb # post) = pre @ [cb]"
  by (induction pre) simp_all

lemma drain_events_none_throws:
  assumes "\<forall>cb \<in> set cbs. \<not> cb_throws cb"
  shows "drain_events d u cbs = map (\<lambda>cb. Invoke d u (cb_id cb)) cbs"
proof -
  have "filter cb_throws cbs = []" using assms by (simp add: filter_empty_conv)
  then show ?thesis by (simp add: drain_events_def reached_none_throws [OF assms])
qed

lemma drain_events_first_throw:
  assumes "\<forall>cb \<in> set pre. \<not> cb_throws cb" and "cb_throws cb"
  shows "drain_events d u (pre @ cb # post) =
           map (\<lambda>cb. Invoke d u (cb_id cb)) pre @
           [Invoke d u (cb_id cb),
            LogError [''Error executing callback'', ''adloader.js:loadExternalScript'']
              (Some (CallbackThrew (cb_id cb)))]"
proof -
  have "filter cb_throws pre = []" using assms(1) by (simp add: filter_empty_conv)
  then show ?thesis
    using assms(2) by (simp add: drain_events_def reached_first_throw [OF assms])
qed

text \<open>When no queued callback throws, the completion signal invokes all of them, in the
  order of their registration, and nothing else.\<close>
lemma completion_invokes_all_when_none_throws:
  assumes "cacheObjectAt w d u = Some c" and "\<forall>cb \<in> set (callbacks c). \<not> cb_throws cb"
  shows "trace (scriptLoaded (d, u) w) = trace w @ map (\<lambda>cb. Invoke d u (cb_id cb)) (callbacks c)"
  using assms by (simp add: trace_scriptLoaded drain_events_none_throws)

text \<open>When one does, the callbacks queued after it are not invoked and one error is logged.\<close>
lemma completion_stops_at_first_throw:
  assumes "cacheObjectAt w d u = Some c" and "callbacks c = pre @ cb # post"
    and "\<forall>x \<in> set pre. \<not> cb_throws x" and "cb_throws cb"
  shows "trace (scriptLoaded (d, u) w) =
           trace w @ map (\<lambda>cb. Invoke d u (cb_id cb)) pre @
           [Invoke d u (cb_id cb),
            LogError [''Error executing callback'', ''adloader.js:loadExternalScript'']
              (Some (CallbackThrew (cb_id cb)))]"
  using assms by (simp add: trace_scriptLoaded drain_events_first_throw)

lemma pending_step:
  assumes c: "cacheObjectAt w d u = Some c" and nl: "\<not> loaded c" and nf: "\<not> fires d u a w"
  shows "cacheObjectAt (snd (step a w)) d u = Some (c\<lparr>callbacks := callbacks c @ registered d u [a]\<rparr>)"
    and "filter (invokes_for d u) (step_events a w) = []"
proof -
  show "cacheObjectAt (snd (step a w)) d u = Some (c\<lparr>callbacks := callbacks c @ registered d u [a]\<rparr>)"
  proof (cases a)
    case (Request en r)
    then show ?thesis
      using c c [folded getCacheObject_CacheObject] nl by (auto simp: loadExternalScript_cache)
  next
    case (LoadEvent h)
    then show ?thesis using c nf by (auto simp: dispatchLoad_cache)
  next
    case (ReadyStateChangeEvent h rs)
    then show ?thesis using c nf by (simp add: dispatchReadyStateChange_cache)
  qed
  show "filter (invokes_for d u) (step_events a w) = []"
  proof (cases a)
    case (Request en r)
    have "filter (invokes_for d u) (call_events en r w) = []"
      using c nl by (intro invokes_for_call) simp
    then show ?thesis using Request by (simp add: step_events_def loadExternalScript_trace)
  next
    case (LoadEvent h)
    have "filter (invokes_for d u) (drain_events (fst cl) (snd cl) cbs) = []"
      if "deliverable h w" and "onload (scripts w ! h) = Some cl" for cl cbs
      using nf LoadEvent that by (intro invokes_for_drain) auto
    then show ?thesis
      using LoadEvent dispatchLoad_events [of h w] by (auto simp: step_events_def)
  next
    case (ReadyStateChangeEvent h rs)
    have "filter (invokes_for d u) (drain_events (fst cl) (snd cl) cbs) = []"
      if "rsc_fires h rs w = Some cl" for cl cbs
      using nf ReadyStateChangeEvent that by (intro invokes_for_drain) auto
    then show ?thesis
      using ReadyStateChangeEvent dispatchReadyStateChange_events [of h rs w]
      by (auto simp: step_events_def)
  qed
qed

lemma firing_step:
  assumes c: "cacheObjectAt w d u = Some c" and f: "fires d u a w"
  shows "cacheObjectAt (snd (step a w)) d u = Some (c\<lparr>loaded := True\<rparr>)"
    and "step_events a w = drain_events d u (callbacks c)"
proof -
  show "cacheObjectAt (snd (step a w)) d u = Some (c\<lparr>loaded := True\<rparr>)"
  proof (cases a)
    case (Request en r)
    with f show ?thesis by simp
  next
    case (LoadEvent h)
    then show ?thesis using c f by (simp add: dispatchLoad_cache)
  next
    case (ReadyStateChangeEvent h rs)
    then show ?thesis using c f by (simp add: dispatchReadyStateChange_cache)
  qed
  show "step_events a w = drain_events d u (callbacks c)"
  proof (cases a)
    case (Request en r)
    with f show ?thesis by simp
  next
    case (LoadEvent h)
    then show ?thesis using c f by (simp add: step_events_def dispatchLoad_trace)
  next
    case (ReadyStateChangeEvent h rs)
    then show ?thesis using c f by (simp add: step_events_def dispatchReadyStateChange_trace)
  qed
qed

lemma pending_exec:
  assumes "cacheObjectAt w d u = Some c" and "\<not> loaded c" and "quiet d u as w"
  shows "cacheObjectAt (snd (exec as w)) d u = Some (c\<lparr>callbacks := callbacks c @ registered d u as\<rparr>)
         \<and> filter (invokes_for d u) (trace (snd (exec as w))) = filter (invokes_for d u) (trace w)"
  using assms
proof (induction as arbitrary: w c)
  case Nil
  then show ?case by simp
next
  case (Cons a as)
  let ?c = "c\<lparr>callbacks := callbacks c @ registered d u [a]\<rparr>"
  from Cons.prems(3) have nf: "\<not> fires d u a w" and q: "quiet d u as (snd (step a w))" by simp_all
  note st = pending_step [OF Cons.prems(1,2) nf]
  have nl: "\<not> loaded ?c" using Cons.prems(2) by simp
  have tr: "filter (invokes_for d u) (trace (snd (step a w))) = filter (invokes_for d u) (trace w)"
    using st(2) by (simp add: step_trace [of a w])
  from Cons.IH [OF st(1) nl q] tr
  show ?case by (simp add: registered_Cons [of d u a as])
qed

text \<open>The normal path of the drain: the callbacks registered for a key before its completion
  signal are invoked by the signal, all of them and in the order of registration, when none
  of them throws; until then none is invoked.\<close>
lemma pending_callbacks_fire_in_order:
  assumes "cacheObjectAt w d u = Some c" and "\<not> loaded c" and "quiet d u as w"
    and "fires d u a (snd (exec as w))"
    and "\<forall>cb \<in> set (callbacks c @ registered d u as). \<not> cb_throws cb"
  shows "filter (invokes_for d u) (trace (snd (exec as w))) = filter (invokes_for d u) (trace w)"
    and "trace (snd (exec (as @ [a]) w)) =
           trace (snd (exec as w)) @
           map (\<lambda>cb. Invoke d u (cb_id cb)) (callbacks c @ registered d u as)"
proof -
  note p = pending_exec [OF assms(1,2,3)]
  show "filter (invokes_for d u) (trace (snd (exec as w))) = filter (invokes_for d u) (trace w)"
    using p by simp
  have e: "cacheObjectAt (snd (exec as w)) d u = Some (c\<lparr>callbacks := callbacks c @ registered d u as\<rparr>)"
    using p by simp
  have "step_events a (snd (exec as w)) = drain_events d u (callbacks c @ registered d u as)"
    using firing_step(2) [OF e assms(4)] by simp
  also have "\<dots> = map (\<lambda>cb. Invoke d u (cb_id cb)) (callbacks c @ registered d u as)"
    using assms(5) by (rule drain_events_none_throws)
  finally have "trace (snd (step a (snd (exec as w)))) =
      trace (snd (exec as w)) @ map (\<lambda>cb. Invoke d u (cb_id cb)) (callbacks c @ registered d u as)"
    by (simp add: step_trace [of a "snd (exec as w)"])
  moreover have "snd (exec (as @ [a]) w) = snd (step a (snd (exec as w)))"
    by (induction as arbitrary: w) simp_all
  ultimately show "trace (snd (exec (as @ [a]) w)) =
           trace (snd (exec as w)) @
           map (\<lambda>cb. Invoke d u (cb_id cb)) (callbacks c @ registered d u as)"
    by simp
qed



text \<open>The first accepted request for a key whose property read finds nothing creates the
  one script element of the key: whatever follows (accepted and rejected requests for this
  and for other keys, completion signals, in any order), every accepted request for the key
  returns that element, unless it hands in a callback that throws when it is invoked at
  once; the script elements created for the key are exactly that one, and the log holds
  exactly one \<^verbatim>\<open>insertElement\<close> of it.\<close>
lemma first_request_loads_once:
  assumes "wf w"
    and "accepted en r"
    and "getCacheObject w (target_doc r) (url r) = Null"
    and "\<not> creation_throws en (attributes r)"
  shows "scripts_of (target_doc r) (url r) w = []
         \<and> fst (loadExternalScript en r w) = Inr (RetElement (length (scripts w)))
         \<and> (\<forall>as.
               list_all2 (\<lambda>a out. targets (target_doc r) (url r) a \<longrightarrow>
                              out = Inr (RetElement (length (scripts w))) \<or> own_callback_threw a out)
                 as (fst (exec as (snd (loadExternalScript en r w))))
               \<and> scripts_of (target_doc r) (url r) (snd (exec as (snd (loadExternalScript en r w)))) =
                   [length (scripts w)]
               \<and> filter (inserts (length (scripts w)))
                    (trace (snd (exec as (snd (loadExternalScript en r w))))) =
                   [InsertElement (length (scripts w)) (target_doc r)])"
proof -
  let ?w1 = "snd (loadExternalScript en r w)"
  let ?n = "length (scripts w)"
  from assms(4) have nt: "\<not> createElement_throws en"
      "\<not> (attributes r \<noteq> None \<and> setScriptAttributes_throws en)" "\<not> insertElement_throws en"
    by (auto simp: creation_throws_def)
  note first = first_request_starts_loading [OF assms(1,2,3) nt(1,2)]
  have res: "fst (loadExternalScript en r w) = Inr (RetElement ?n)"
    using loadExternalScript_miss(1) [OF assms(2,3)] nt by simp
  have "\<exists>c. cacheObjectAt ?w1 (target_doc r) (url r) = Some c \<and> tag c = Some ?n"
    using loadExternalScript_miss(3) [OF assms(2,3), of "target_doc r" "url r"] nt by simp
  then have "loading (target_doc r) (url r) ?n ?w1"
    unfolding loading_def using first(2,3) by simp
  then have "\<forall>as. loading (target_doc r) (url r) ?n (snd (exec as ?w1))
         \<and> list_all2 (\<lambda>a out. targets (target_doc r) (url r) a \<longrightarrow>
                         out = Inr (RetElement ?n) \<or> own_callback_threw a out)
              as (fst (exec as ?w1))"
    using loading_exec by blast
  then show ?thesis
    using first(1) res unfolding loading_def by blast
qed

section \<open>The claims\<close>

subsection \<open>C1: one script element per document and url\<close>

text \<open>
  Claim C1 says that the accepted calls for one (document, url) perform exactly one creation
  and one insertion of a script element, by the first of them, and that every later one
  returns the element the first created. For a key whose property read finds nothing this
  is what the code does (lemma \<open>first_request_loads_once\<close>). The read of line 151,
  \<^verbatim>\<open>cachedDocObj[url]\<close>, is a property read of a plain object, however, and it also
  finds what the object inherits. Evaluated at a document that has requested
  \<^verbatim>\<open>foo.js\<close>, followed by two accepted calls for the url \<^verbatim>\<open>constructor\<close>: the read
  finds the inherited function, so both calls take lines 75 to 85 and return
  \<^verbatim>\<open>undefined\<close>; no cache object and no script element is created for the url, nothing
  is inserted for it, and an accepted call that hands in a function callback ends with a
  TypeError without the callback being queued or invoked.
\<close>

theorem inherited_url_is_never_loaded:
  "accepted en_ok (rq ''constructor'' ''debugging'' Undefined)
   \<and> accepted en_ok (rq ''constructor'' ''optable'' Undefined)
   \<and> getCacheObject (snd (exec [Request en_ok (rq ''foo.js'' ''debugging'' Undefined)] init))
         0 ''constructor'' = Foreign
   \<and> fst (exec [Request en_ok (rq ''foo.js'' ''debugging'' Undefined),
                 Request en_ok (rq ''constructor'' ''debugging'' Undefined),
                 Request en_ok (rq ''constructor'' ''optable'' Undefined)] init) =
       [Inr (RetElement 0), Inr RetUndefined, Inr RetUndefined]
   \<and> scripts_of 0 ''constructor''
         (snd (exec [Request en_ok (rq ''foo.js'' ''debugging'' Undefined),
                     Request en_ok (rq ''constructor'' ''debugging'' Undefined),
                     Request en_ok (rq ''constructor'' ''optable'' Undefined)] init)) = []
   \<and> trace (snd (exec [Request en_ok (rq ''foo.js'' ''debugging'' Undefined),
                        Request en_ok (rq ''constructor'' ''debugging'' Undefined),
                        Request en_ok (rq ''constructor'' ''optable'' Undefined)] init)) =
       [IsActivityAllowed LOAD_EXTERNAL_SCRIPT (''rtd'', ''debugging''),
        LogWarn ''module debugging is loading external JavaScript'',
        CreateElement 0,
        InsertElement 0 0,
        IsActivityAllowed LOAD_EXTERNAL_SCRIPT (''rtd'', ''debugging''),
        IsActivityAllowed LOAD_EXTERNAL_SCRIPT (''rtd'', ''optable'')]
   \<and> cacheObjectAt
         (snd (exec [Request en_ok (rq ''foo.js'' ''debugging'' Undefined),
                     Request en_ok (rq ''constructor'' ''debugging'' Undefined),
                     Request en_ok (rq ''constructor'' ''optable'' Undefined)] init))
         0 ''constructor'' = None
   \<and> accepted en_ok (rq ''constructor'' ''debugging'' (Function (Callback 1 False)))
   \<and> fst (exec [Request en_ok (rq ''foo.js'' ''debugging'' Undefined),
                 Request en_ok (rq ''constructor'' ''debugging'' (Function (Callback 1 False)))] init) =
       [Inr (RetElement 0), Inl TypeError]
   \<and> trace (snd (exec [Request en_ok (rq ''foo.js'' ''debugging'' Undefined),
                        Request en_ok (rq ''constructor'' ''debugging'' (Function (Callback 1 False)))] init)) =
       [IsActivityAllowed LOAD_EXTERNAL_SCRIPT (''rtd'', ''debugging''),
        LogWarn ''module debugging is loading external JavaScript'',
        CreateElement 0,
        InsertElement 0 0,
        IsActivityAllowed LOAD_EXTERNAL_SCRIPT (''rtd'', ''debugging'')]
   \<and> cacheObjectAt
         (snd (exec [Request en_ok (rq ''foo.js'' ''debugging'' Undefined),
                     Request en_ok (rq ''constructor'' ''debugging'' (Function (Callback 1 False)))] init))
         0 ''constructor'' = None"
  by code_simp

subsection \<open>C2: callbacks registered while pending\<close>

text \<open>
  Claim C2 says that every callback registered while the cache object is pending is invoked
  exactly once, in registration order, when the completion signal fires. When no queued
  callback throws this is what happens (lemmas \<open>completion_invokes_all_when_none_throws\<close>
  and \<open>pending_callbacks_fire_in_order\<close>).
  The \<^verbatim>\<open>try\<close> of lines 103 to 109 is around the whole loop, however, so the first callback
  that throws ends the loop (lemma \<open>completion_stops_at_first_throw\<close>). Evaluated at two
  requests for one url, the first with a callback that throws: both callbacks are queued
  while the cache object is pending, neither is invoked before the completion signal, and
  the completion signal invokes the first only; the second stays in the list of a loaded
  cache object and is never invoked.
\<close>

theorem pending_callback_behind_thrower_not_invoked:
  "getCacheObject w_thrower_first 0 ''foo.js'' =
     CacheObject \<lparr>loaded = False, tag = Some 0, callbacks = [Callback 1 True, Callback 2 False]\<rparr>
   \<and> filter (invokes_for 0 ''foo.js'') (trace w_thrower_first) = []
   \<and> filter (invokes_for 0 ''foo.js'') (trace (dispatchLoad 0 w_thrower_first)) = [Invoke 0 ''foo.js'' 1]
   \<and> getCacheObject (dispatchLoad 0 w_thrower_first) 0 ''foo.js'' =
     CacheObject \<lparr>loaded = True, tag = Some 0, callbacks = [Callback 1 True, Callback 2 False]\<rparr>"
  by code_simp

subsection \<open>C3: a callback handed to a loaded entry\<close>

text \<open>
  Claim C3. A call that passes the checks and finds the cache object of its (document, url)
  with \<^verbatim>\<open>loaded = true\<close> invokes its function callback exactly once inside the call: the
  events of the call are the consultation of the rules and that one invocation. The cache
  is left as it was, so the callback is not appended to \<^verbatim>\<open>callbacks\<close>; the call returns
  the stored tag, or lets the exception of the callback through.
\<close>

theorem loaded_entry_invokes_callback_at_once:
  assumes "accepted en r"
    and "getCacheObject w (target_doc r) (url r) = CacheObject c"
    and "loaded c"
    and "callback r = Function cb"
  shows "trace (snd (loadExternalScript en r w)) =
           trace w @ [IsActivityAllowed LOAD_EXTERNAL_SCRIPT (activityParams (moduleType r) (moduleCode r)),
                      Invoke (target_doc r) (url r) (cb_id cb)]
         \<and> requestCache (snd (loadExternalScript en r w)) = requestCache w
         \<and> scripts (snd (loadExternalScript en r w)) = scripts w
         \<and> fst (loadExternalScript en r w) =
             (if cb_throws cb then Inl (CallbackThrew (cb_id cb)) else Inr (ret_tag (tag c)))"
  using loadExternalScript_hit [OF assms(1) assms(2) [unfolded getCacheObject_CacheObject]]
        loadExternalScript_hit_loaded_cache [OF assms(1) assms(2) [unfolded getCacheObject_CacheObject] assms(3)]
        assms(3,4)
  by (simp add: fn_callbacks_def gate_event_def)

theorem loaded_entry_invokes_callback_at_once_witness:
  "trace (snd (loadExternalScript en_ok (rq ''foo.js'' ''optable'' (Function (Callback 2 False))) w_loaded)) =
     trace w_loaded @ [IsActivityAllowed LOAD_EXTERNAL_SCRIPT (''rtd'', ''optable''), Invoke 0 ''foo.js'' 2]
   \<and> getCacheObject (snd (loadExternalScript en_ok (rq ''foo.js'' ''optable'' (Function (Callback 2 False))) w_loaded))
        0 ''foo.js'' = CacheObject \<lparr>loaded = True, tag = Some 0, callbacks = [Callback 1 False]\<rparr>
   \<and> fst (loadExternalScript en_ok (rq ''foo.js'' ''optable'' (Function (Callback 2 False))) w_loaded) =
        Inr (RetElement 0)"
proof -
  let ?r = "rq ''foo.js'' ''optable'' (Function (Callback 2 False))"
  let ?c = "\<lparr>loaded = True, tag = Some 0, callbacks = [Callback 1 False]\<rparr>"
  have h1: "accepted en_ok ?r" by code_simp
  have h2: "getCacheObject w_loaded (target_doc ?r) (url ?r) = CacheObject ?c" by code_simp
  have h3: "loaded ?c" by simp
  have h4: "callback ?r = Function (Callback 2 False)" by code_simp
  have k: "getCacheObject w_loaded 0 ''foo.js'' = CacheObject ?c" by code_simp
  have t: "target_doc ?r = 0" "url ?r = ''foo.js''" "moduleType ?r = ''rtd''" "moduleCode ?r = ''optable''"
    by code_simp+
  show ?thesis
    using loaded_entry_invokes_callback_at_once [OF h1 h2 h3 h4] k
      getCacheObject_cong [of "snd (loadExternalScript en_ok ?r w_loaded)" w_loaded 0 "''foo.js''"]
    by (simp add: t activityParams_def ret_tag_def)
qed

subsection \<open>C4: a callback that throws during the drain\<close>

text \<open>
  Claim C4 says that an exception of a callback is caught and logged for that callback and
  that the callbacks queued after it are still invoked. Evaluated at three queued callbacks
  of which the second throws: the completion handler invokes the first and the second, logs
  one error and stops; the third callback is not invoked.
\<close>

theorem throwing_callback_aborts_drain:
  "getCacheObject w_thrower_second 0 ''foo.js'' =
     CacheObject \<lparr>loaded = False, tag = Some 0,
                  callbacks = [Callback 1 False, Callback 2 True, Callback 3 False]\<rparr>
   \<and> trace (scriptLoaded (0, ''foo.js'') w_thrower_second) =
     trace w_thrower_second @
       [Invoke 0 ''foo.js'' 1, Invoke 0 ''foo.js'' 2,
        LogError [''Error executing callback'', ''adloader.js:loadExternalScript'']
          (Some (CallbackThrew 2))]"
  by code_simp

subsection \<open>C5: the completion handler invoked twice\<close>




subsection \<open>C6: the order of the rules and the validation\<close>

text \<open>
  Claim C6 says that validation of \<^verbatim>\<open>url\<close> and \<^verbatim>\<open>moduleCode\<close> comes before the
  activity rules, so that a call with an empty url never consults them and is rejected
  with a logged error. The source consults \<^verbatim>\<open>isActivityAllowed\<close> on line 58, before
  the test of line 62. First the claim fails at a concrete call: with an empty url the
  rules are consulted, and when they deny nothing is logged.
\<close>

theorem rules_consulted_for_empty_url_counterexample:
  "url (rq [] ''optable'' Undefined) = []
   \<and> trace (snd (loadExternalScript en_ok (rq [] ''optable'' Undefined) init)) =
       [IsActivityAllowed LOAD_EXTERNAL_SCRIPT (''rtd'', ''optable''),
        LogError [''cannot load external script without url and moduleCode''] None]
   \<and> trace (snd (loadExternalScript en_deny (rq [] ''optable'' Undefined) init)) =
       [IsActivityAllowed LOAD_EXTERNAL_SCRIPT (''rtd'', ''optable'')]"
  by code_simp

text \<open>
  Claim C6 as amended. Every call consults the activity rules first. A call with an empty
  url or an empty module code returns \<^verbatim>\<open>undefined\<close> and changes neither the cache nor
  the scripts; it logs the validation error when the rules allow the call and logs nothing
  when they deny it.
\<close>

theorem rules_consulted_before_validation:
  "(\<exists>rest. trace (snd (loadExternalScript en r w)) =
       trace w @ IsActivityAllowed LOAD_EXTERNAL_SCRIPT (activityParams (moduleType r) (moduleCode r)) # rest)
   \<and> (url r = [] \<or> moduleCode r = [] \<longrightarrow>
        fst (loadExternalScript en r w) = Inr RetUndefined
        \<and> requestCache (snd (loadExternalScript en r w)) = requestCache w
        \<and> scripts (snd (loadExternalScript en r w)) = scripts w
        \<and> trace (snd (loadExternalScript en r w)) =
            trace w @ IsActivityAllowed LOAD_EXTERNAL_SCRIPT (activityParams (moduleType r) (moduleCode r)) #
              (if isActivityAllowed en LOAD_EXTERNAL_SCRIPT (activityParams (moduleType r) (moduleCode r))
               then [LogError [''cannot load external script without url and moduleCode''] None]
               else []))"
proof (intro conjI impI)
  show "\<exists>rest. trace (snd (loadExternalScript en r w)) =
       trace w @ IsActivityAllowed LOAD_EXTERNAL_SCRIPT (activityParams (moduleType r) (moduleCode r)) # rest"
  proof (cases "accepted en r")
    case False
    then show ?thesis
      using loadExternalScript_rejected(4) [of en r w] by (simp add: gate_event_def)
  next
    case True
    show ?thesis
    proof (cases "getCacheObject w (target_doc r) (url r)")
      case Null
      then show ?thesis
        using loadExternalScript_miss(4) [OF True, of w] by (simp add: gate_event_def)
    next
      case (CacheObject c)
      then show ?thesis
        using loadExternalScript_hit(4) [OF True CacheObject [unfolded getCacheObject_CacheObject]]
        by (simp add: gate_event_def)
    next
      case Foreign
      then show ?thesis
        using loadExternalScript_foreign(4) [OF True, of w] by (simp add: gate_event_def)
    qed
  qed
next
  assume e: "url r = [] \<or> moduleCode r = []"
  then have na: "\<not> accepted en r" by (auto simp: accepted_def)
  show "fst (loadExternalScript en r w) = Inr RetUndefined"
    using loadExternalScript_rejected(1) [OF na] .
  show "requestCache (snd (loadExternalScript en r w)) = requestCache w"
    using loadExternalScript_rejected(2) [OF na] .
  show "scripts (snd (loadExternalScript en r w)) = scripts w"
    using loadExternalScript_rejected(3) [OF na] .
  show "trace (snd (loadExternalScript en r w)) =
            trace w @ IsActivityAllowed LOAD_EXTERNAL_SCRIPT (activityParams (moduleType r) (moduleCode r)) #
              (if isActivityAllowed en LOAD_EXTERNAL_SCRIPT (activityParams (moduleType r) (moduleCode r))
               then [LogError [''cannot load external script without url and moduleCode''] None]
               else [])"
    using loadExternalScript_rejected(4) [OF na, of w] e by (auto simp: gate_event_def)
qed

theorem rules_consulted_before_validation_witness:
  "fst (loadExternalScript en_deny (rq ''foo.js'' [] Undefined) w_loaded) = Inr RetUndefined
   \<and> requestCache (snd (loadExternalScript en_deny (rq ''foo.js'' [] Undefined) w_loaded)) = requestCache w_loaded
   \<and> trace (snd (loadExternalScript en_deny (rq ''foo.js'' [] Undefined) w_loaded)) =
       trace w_loaded @ [IsActivityAllowed LOAD_EXTERNAL_SCRIPT (''rtd'', [])]"
proof -
  let ?r = "rq ''foo.js'' [] Undefined"
  have h: "url ?r = [] \<or> moduleCode ?r = []" by code_simp
  have d: "\<not> isActivityAllowed en_deny LOAD_EXTERNAL_SCRIPT (activityParams (moduleType ?r) (moduleCode ?r))"
    by code_simp
  have t: "activityParams (moduleType ?r) (moduleCode ?r) = (''rtd'', [])" by code_simp
  show ?thesis
    using rules_consulted_before_validation [of en_deny ?r w_loaded] h d by (simp add: t)
qed

subsection \<open>C7: rejected calls and accepted calls\<close>




subsection \<open>C8: attributes\<close>

text \<open>
  Claim C8. The request that creates the cache object of a (document, url) applies its
  attributes to the script element it constructs, and the log holds exactly one call of
  \<^verbatim>\<open>setScriptAttributes\<close> on that element. Whatever follows (requests for the same key
  with other attributes, requests for other keys, completion signals), the attributes of the
  element stay what the first request made them and no further call of
  \<^verbatim>\<open>setScriptAttributes\<close> on it is logged. A call whose property read finds something for
  its key, a cache object, pending or loaded, or an inherited value, changes no script
  element and calls \<^verbatim>\<open>setScriptAttributes\<close> not at all, whatever its \<^verbatim>\<open>attributes\<close>
  argument is.
\<close>

theorem attributes_applied_by_entry_creating_request_only:
  assumes "wf w"
    and "accepted en r"
    and "getCacheObject w (target_doc r) (url r) = Null"
    and "attributes r = Some a"
    and "\<not> creation_throws en (Some a)"
  shows "getCacheObject (snd (loadExternalScript en r w)) (target_doc r) (url r) =
           CacheObject \<lparr>loaded = False, tag = Some (length (scripts w)),
                        callbacks = fn_callbacks (callback r)\<rparr>
         \<and> (\<forall>as. attribs (scripts (snd (exec as (snd (loadExternalScript en r w)))) ! length (scripts w)) =
                    setScriptAttributes [] a
                \<and> filter (sets_attributes_of (length (scripts w)))
                     (trace (snd (exec as (snd (loadExternalScript en r w))))) =
                    [SetScriptAttributes (length (scripts w)) a])
         \<and> (\<forall>en' r' w'. getCacheObject w' (target_doc r') (url r') \<noteq> Null \<longrightarrow>
                scripts (snd (loadExternalScript en' r' w')) = scripts w'
                \<and> filter is_SetScriptAttributes
                     (drop (length (trace w')) (trace (snd (loadExternalScript en' r' w')))) = [])"
proof (intro conjI allI impI)
  let ?w1 = "snd (loadExternalScript en r w)"
  let ?h = "length (scripts w)"
  from assms(5) have nt: "\<not> createElement_throws en" "\<not> setScriptAttributes_throws en" "\<not> insertElement_throws en"
    by (auto simp: creation_throws_def)
  show "getCacheObject ?w1 (target_doc r) (url r) =
          CacheObject \<lparr>loaded = False, tag = Some ?h, callbacks = fn_callbacks (callback r)\<rparr>"
    using loadExternalScript_miss(3) [OF assms(2,3), of "target_doc r" "url r"] nt
    by (simp add: getCacheObject_CacheObject)
  have sc: "scripts ?w1 = scripts w @ [created_script en (target_doc r) (target_doc r, url r) (url r) (Some a)]"
    using loadExternalScript_miss(2) [OF assms(2,3)] nt assms(4) by simp
  then have len: "?h < length (scripts ?w1)" by simp
  have at: "attribs (scripts ?w1 ! ?h) = setScriptAttributes [] a"
    using sc nt by simp
  have old: "filter (sets_attributes_of ?h) (trace w) = []"
  proof -
    have "\<not> sets_attributes_of ?h e" if "e \<in> set (trace w)" for e
    proof
      assume "sets_attributes_of ?h e"
      then have "event_handle e = Some ?h" by (rule sets_attributes_of_handle)
      with that have "?h \<in> set (handles_in (trace w))" by (rule event_handle_in_handles)
      with assms(1) show False by (auto simp: wf_def)
    qed
    then show ?thesis by (simp add: filter_empty_conv)
  qed
  have tr: "filter (sets_attributes_of ?h) (trace ?w1) = [SetScriptAttributes ?h a]"
    using loadExternalScript_miss(4) [OF assms(2,3)] nt assms(4) old by (simp add: gate_event_def)
  fix as
  show "attribs (scripts (snd (exec as ?w1)) ! ?h) = setScriptAttributes [] a"
    using exec_old_script [OF len, of as] at by simp
  show "filter (sets_attributes_of ?h) (trace (snd (exec as ?w1))) = [SetScriptAttributes ?h a]"
    using exec_old_script [OF len, of as] tr by simp
next
  fix en' r' w'
  assume ex: "getCacheObject w' (target_doc r') (url r') \<noteq> Null"
  then show "scripts (snd (loadExternalScript en' r' w')) = scripts w'"
    by (simp add: loadExternalScript_scripts)
  have "filter is_SetScriptAttributes (call_events en' r' w') = []"
    using ex
    by (auto simp: call_events_def gate_event_def fn_callbacks_def split: jsarg.splits lookup.splits)
  then show "filter is_SetScriptAttributes
               (drop (length (trace w')) (trace (snd (loadExternalScript en' r' w')))) = []"
    by (simp add: loadExternalScript_trace)
qed

theorem attributes_applied_by_entry_creating_request_only_witness:
  "attribs (scripts (snd (exec [Request en_ok (rq_attrs ''foo.js'' ''optable'' Undefined [(''id'', ''second'')]),
                                LoadEvent 0]
                       (snd (loadExternalScript en_ok
                              (rq_attrs ''foo.js'' ''debugging'' Undefined [(''id'', ''first'')]) init)))) ! 0) =
     [(''id'', ''first'')]
   \<and> filter (sets_attributes_of 0)
        (trace (snd (exec [Request en_ok (rq_attrs ''foo.js'' ''optable'' Undefined [(''id'', ''second'')]),
                           LoadEvent 0]
                      (snd (loadExternalScript en_ok
                             (rq_attrs ''foo.js'' ''debugging'' Undefined [(''id'', ''first'')]) init))))) =
     [SetScriptAttributes 0 [(''id'', ''first'')]]
   \<and> scripts (snd (loadExternalScript en_ok
                      (rq_attrs ''foo.js'' ''optable'' Undefined [(''id'', ''second'')]) w_pending)) =
     scripts w_pending"
proof -
  let ?r = "rq_attrs ''foo.js'' ''debugging'' Undefined [(''id'', ''first'')]"
  let ?r' = "rq_attrs ''foo.js'' ''optable'' Undefined [(''id'', ''second'')]"
  have h2: "accepted en_ok ?r" by code_simp
  have h3: "getCacheObject init (target_doc ?r) (url ?r) = Null" by code_simp
  have h4: "attributes ?r = Some [(''id'', ''first'')]" by code_simp
  have h5: "\<not> creation_throws en_ok (Some [(''id'', ''first'')])" by code_simp
  have h6: "getCacheObject w_pending (target_doc ?r') (url ?r') \<noteq> Null" by code_simp
  have len: "length (scripts init) = 0" by code_simp
  have sa: "setScriptAttributes [] [(''id'', ''first'')] = [(''id'', ''first'')]" by simp
  show ?thesis
    using attributes_applied_by_entry_creating_request_only [OF wf_init h2 h3 h4 h5] h6
    unfolding len sa by blast
qed

subsection \<open>C9: contexts\<close>



subsection \<open>C10: a first request whose DOM steps throw\<close>

text \<open>
  Claim C10. When \<^verbatim>\<open>createElement\<close>, \<^verbatim>\<open>setScriptAttributes\<close> or
  \<^verbatim>\<open>insertElement\<close> throws in the request that creates the cache object of a key, the
  call ends with that exception and the cache object stays behind, pending, with the
  callback of the request. For every continuation \<open>as\<close> the cache object is still
  pending and its callbacks are those of the first request followed by those of the later
  accepted requests for the key, in order; no further script element is created for the
  key, the one that may exist is not inserted, and the log gains no invocation of a
  callback on behalf of the key.
\<close>

theorem failed_creation_leaves_dead_entry:
  assumes "wf w"
    and "accepted en r"
    and "getCacheObject w (target_doc r) (url r) = Null"
    and "creation_throws en (attributes r)"
  shows "(\<exists>e. fst (loadExternalScript en r w) = Inl e)
         \<and> (\<forall>as.
               getCacheObject (snd (exec as (snd (loadExternalScript en r w)))) (target_doc r) (url r) =
                 CacheObject \<lparr>loaded = False,
                              tag = (if createElement_throws en then None else Some (length (scripts w))),
                              callbacks = fn_callbacks (callback r) @ registered (target_doc r) (url r) as\<rparr>
               \<and> scripts_of (target_doc r) (url r) (snd (exec as (snd (loadExternalScript en r w)))) =
                   (if createElement_throws en then [] else [length (scripts w)])
               \<and> (\<not> createElement_throws en \<longrightarrow>
                    \<not> inserted (scripts (snd (exec as (snd (loadExternalScript en r w)))) ! length (scripts w)))
               \<and> filter (invokes_for (target_doc r) (url r))
                    (trace (snd (exec as (snd (loadExternalScript en r w))))) =
                   filter (invokes_for (target_doc r) (url r)) (trace w))"
proof (intro conjI allI)
  let ?w1 = "snd (loadExternalScript en r w)"
  let ?d = "target_doc r" and ?u = "url r"
  let ?c = "\<lparr>loaded = False,
             tag = (if createElement_throws en then None else Some (length (scripts w))),
             callbacks = fn_callbacks (callback r)\<rparr>"
  note f = failed_request_is_dead [OF assms]
  show "\<exists>e. fst (loadExternalScript en r w) = Inl e"
    using loadExternalScript_miss(1) [OF assms(2,3)] assms(4)
    by (auto simp: creation_throws_def)
  have c: "cacheObjectAt ?w1 ?d ?u = Some ?c"
    using loadExternalScript_miss(3) [OF assms(2,3), of ?d ?u] by simp
  fix as
  note ex = dead_exec [OF f(1) c, of as]
  show "getCacheObject (snd (exec as ?w1)) ?d ?u =
          CacheObject \<lparr>loaded = False,
                       tag = (if createElement_throws en then None else Some (length (scripts w))),
                       callbacks = fn_callbacks (callback r) @ registered ?d ?u as\<rparr>"
    using ex by (simp add: getCacheObject_CacheObject)
  show "scripts_of ?d ?u (snd (exec as ?w1)) = (if createElement_throws en then [] else [length (scripts w)])"
    using ex f(2) by simp
  show "filter (invokes_for ?d ?u) (trace (snd (exec as ?w1))) = filter (invokes_for ?d ?u) (trace w)"
    using ex f(3) by simp
  show "\<not> createElement_throws en \<longrightarrow> \<not> inserted (scripts (snd (exec as ?w1)) ! length (scripts w))"
  proof
    assume nc: "\<not> createElement_throws en"
    then have "length (scripts w) < length (scripts ?w1)"
      using loadExternalScript_miss(2) [OF assms(2,3)] by simp
    from exec_old_script [OF this, of as] f(4) [OF nc]
    show "\<not> inserted (scripts (snd (exec as ?w1)) ! length (scripts w))" by simp
  qed
qed

theorem failed_creation_leaves_dead_entry_witness:
  "(\<exists>e. fst (loadExternalScript en_attr_throws
              (rq_attrs ''foo.js'' ''debugging'' (Function (Callback 1 False)) [([], ''x'')]) init) = Inl e)
   \<and> getCacheObject
        (snd (exec [Request en_ok (rq ''foo.js'' ''optable'' (Function (Callback 2 False))),
                    LoadEvent 0,
                    ReadyStateChangeEvent 0 ''complete'']
               (snd (loadExternalScript en_attr_throws
                      (rq_attrs ''foo.js'' ''debugging'' (Function (Callback 1 False)) [([], ''x'')]) init))))
        0 ''foo.js'' =
       CacheObject \<lparr>loaded = False, tag = Some 0, callbacks = [Callback 1 False, Callback 2 False]\<rparr>
   \<and> filter (invokes_for 0 ''foo.js'')
        (trace (snd (exec [Request en_ok (rq ''foo.js'' ''optable'' (Function (Callback 2 False))),
                    LoadEvent 0,
                    ReadyStateChangeEvent 0 ''complete'']
               (snd (loadExternalScript en_attr_throws
                      (rq_attrs ''foo.js'' ''debugging'' (Function (Callback 1 False)) [([], ''x'')]) init)))))
       = []
   \<and> \<not> inserted
        (scripts (snd (exec [Request en_ok (rq ''foo.js'' ''optable'' (Function (Callback 2 False))),
                    LoadEvent 0,
                    ReadyStateChangeEvent 0 ''complete'']
               (snd (loadExternalScript en_attr_throws
                      (rq_attrs ''foo.js'' ''debugging'' (Function (Callback 1 False)) [([], ''x'')]) init)))) ! 0)"
proof -
  let ?r = "rq_attrs ''foo.js'' ''debugging'' (Function (Callback 1 False)) [([], ''x'')]"
  let ?as = "[Request en_ok (rq ''foo.js'' ''optable'' (Function (Callback 2 False))),
              LoadEvent 0, ReadyStateChangeEvent 0 ''complete'']"
  have h2: "accepted en_attr_throws ?r" by code_simp
  have h3: "getCacheObject init (target_doc ?r) (url ?r) = Null" by code_simp
  have h4: "creation_throws en_attr_throws (attributes ?r)" by code_simp
  have t: "target_doc ?r = 0" "url ?r = ''foo.js''" "length (scripts init) = 0" "trace init = []"
    "createElement_throws en_attr_throws = False"
    "fn_callbacks (callback ?r) @ registered 0 ''foo.js'' ?as = [Callback 1 False, Callback 2 False]"
    by code_simp+
  from failed_creation_leaves_dead_entry [OF wf_init h2 h3 h4]
  have "(\<exists>e. fst (loadExternalScript en_attr_throws ?r init) = Inl e)
    \<and> getCacheObject (snd (exec ?as (snd (loadExternalScript en_attr_throws ?r init)))) (target_doc ?r) (url ?r) =
        CacheObject \<lparr>loaded = False,
                     tag = (if createElement_throws en_attr_throws then None else Some (length (scripts init))),
                     callbacks = fn_callbacks (callback ?r) @ registered (target_doc ?r) (url ?r) ?as\<rparr>
    \<and> filter (invokes_for (target_doc ?r) (url ?r))
         (trace (snd (exec ?as (snd (loadExternalScript en_attr_throws ?r init))))) =
        filter (invokes_for (target_doc ?r) (url ?r)) (trace init)
    \<and> (\<not> createElement_throws en_attr_throws \<longrightarrow>
         \<not> inserted (scripts (snd (exec ?as (snd (loadExternalScript en_attr_throws ?r init)))) !
                       length (scripts init)))"
    by blast
  then show ?thesis
    unfolding t by simp
qed

end
